theory Spec2Isabelle
  imports Complex_Main "HOL-Library.Sublist"
begin

section \<open>JavaScript numbers\<close>

text \<open>
  Every value that Fx.Transitions.js computes with is a JavaScript number, an IEEE 754
  double. A number is modelled as the real value of a finite double or one of the three
  special values \<open>Infinity\<close>, \<open>-Infinity\<close> and \<open>NaN\<close>; there is no negative zero.
  Every arithmetic operation computes the exact real result and rounds it to the nearest
  double (\<open>rnd\<close> below), as IEEE 754 prescribes for \<open>+ - * /\<close>.

  An argument that the caller leaves out is \<open>undefined\<close>. The source only ever uses an
  argument in arithmetic, in a comparison, in a \<open>Math\<close> function or on the left of
  \<open>||\<close>; the first three convert \<open>undefined\<close> to \<open>NaN\<close> and the last treats both
  as falsy, so \<open>NaN\<close> also stands for \<open>undefined\<close>.

  Two results are compared as values of this type, so \<open>NaN\<close> is equal to itself
  here, unlike under JavaScript's \<open>==\<close>.
\<close>

datatype number = Num real | Infinity | NegInfinity | NaN

subsection \<open>Rounding to the nearest double\<close>

text \<open>
  A finite double is \<open>n * 2^(e - 52)\<close> with \<open>|n| < 2^53\<close> and an exponent \<open>e\<close> from
  \<open>-1022\<close> to \<open>1023\<close>. A real \<open>x\<close> is rounded on the grid of its own binade
  (the subnormal grid \<open>2^-1074\<close> below \<open>2^-1022\<close>), to the nearest point and to the
  even one in a tie; a result of magnitude \<open>2^1024\<close> or more overflows to an infinity.
\<close>

definition round_even :: "real \<Rightarrow> int" where
  "round_even y =
     (let f = \<lfloor>y\<rfloor>; d = y - of_int f
      in if d < 1 / 2 then f else if 1 / 2 < d then f + 1 else if even f then f else f + 1)"

definition exponent :: "real \<Rightarrow> int" where
  "exponent x = max \<lfloor>log 2 \<bar>x\<bar>\<rfloor> (- 1022)"

definition nearest :: "real \<Rightarrow> real" where
  "nearest x =
     (if x = 0 then 0
      else let q = 2 powr of_int (exponent x - 52) in of_int (round_even (x / q)) * q)"

definition rnd :: "real \<Rightarrow> number" where
  "rnd x =
     (let r = nearest x
      in if 2 ^ 1024 \<le> \<bar>r\<bar> then (if 0 < x then Infinity else NegInfinity) else Num r)"

text \<open>
  A decimal literal of the source denotes the double nearest to it. The literals that are
  doubles themselves (\<open>1\<close>, \<open>0.5\<close>, \<open>2.75\<close>, \<open>7.5625\<close>, ...) are written
  \<open>Num\<close>; \<open>1.6180\<close> and \<open>0.3\<close> are not doubles and are written \<open>lit\<close>. A finite
  number that is a value of the program is a fixed point of the rounding.
\<close>

definition lit :: "real \<Rightarrow> number" where
  "lit c = rnd c"

fun is_double :: "number \<Rightarrow> bool" where
  "is_double (Num a) = (rnd a = Num a)"
| "is_double Infinity = True"
| "is_double NegInfinity = True"
| "is_double NaN = True"

subsection \<open>Arithmetic\<close>

fun neg :: "number \<Rightarrow> number" where
  "neg (Num a) = Num (- a)"
| "neg Infinity = NegInfinity"
| "neg NegInfinity = Infinity"
| "neg NaN = NaN"

fun add :: "number \<Rightarrow> number \<Rightarrow> number" where
  "add (Num a) (Num b) = rnd (a + b)"
| "add (Num a) Infinity = Infinity"
| "add (Num a) NegInfinity = NegInfinity"
| "add Infinity (Num b) = Infinity"
| "add Infinity Infinity = Infinity"
| "add Infinity NegInfinity = NaN"
| "add NegInfinity (Num b) = NegInfinity"
| "add NegInfinity Infinity = NaN"
| "add NegInfinity NegInfinity = NegInfinity"
| "add NaN y = NaN"
| "add x NaN = NaN"

text \<open>The infinity with the sign of a nonzero real, and with the opposite sign.\<close>

definition inf_of_sign :: "real \<Rightarrow> number" where
  "inf_of_sign a = (if 0 < a then Infinity else NegInfinity)"

fun mul :: "number \<Rightarrow> number \<Rightarrow> number" where
  "mul (Num a) (Num b) = rnd (a * b)"
| "mul (Num a) Infinity = (if a = 0 then NaN else inf_of_sign a)"
| "mul (Num a) NegInfinity = (if a = 0 then NaN else inf_of_sign (- a))"
| "mul Infinity (Num b) = (if b = 0 then NaN else inf_of_sign b)"
| "mul Infinity Infinity = Infinity"
| "mul Infinity NegInfinity = NegInfinity"
| "mul NegInfinity (Num b) = (if b = 0 then NaN else inf_of_sign (- b))"
| "mul NegInfinity Infinity = NegInfinity"
| "mul NegInfinity NegInfinity = Infinity"
| "mul NaN y = NaN"
| "mul x NaN = NaN"

text \<open>
  Division never faults in JavaScript: a nonzero number over zero is an infinity and zero
  over zero is \<open>NaN\<close>. The zero divisor is taken as \<open>+0\<close>.
\<close>

fun quot :: "number \<Rightarrow> number \<Rightarrow> number" where
  "quot (Num a) (Num b) =
     (if b \<noteq> 0 then rnd (a / b) else if a = 0 then NaN else inf_of_sign a)"
| "quot (Num a) Infinity = Num 0"
| "quot (Num a) NegInfinity = Num 0"
| "quot Infinity (Num b) = (if 0 \<le> b then Infinity else NegInfinity)"
| "quot Infinity Infinity = NaN"
| "quot Infinity NegInfinity = NaN"
| "quot NegInfinity (Num b) = (if 0 \<le> b then NegInfinity else Infinity)"
| "quot NegInfinity Infinity = NaN"
| "quot NegInfinity NegInfinity = NaN"
| "quot NaN y = NaN"
| "quot x NaN = NaN"

text \<open>The comparisons \<open><\<close> and \<open><=\<close>: false as soon as one side is \<open>NaN\<close>.\<close>

fun lt :: "number \<Rightarrow> number \<Rightarrow> bool" where
  "lt (Num a) (Num b) = (a < b)"
| "lt (Num a) Infinity = True"
| "lt (Num a) NegInfinity = False"
| "lt Infinity y = False"
| "lt NegInfinity (Num b) = True"
| "lt NegInfinity Infinity = True"
| "lt NegInfinity NegInfinity = False"
| "lt NaN y = False"
| "lt x NaN = False"

fun le :: "number \<Rightarrow> number \<Rightarrow> bool" where
  "le (Num a) (Num b) = (a \<le> b)"
| "le (Num a) Infinity = True"
| "le (Num a) NegInfinity = False"
| "le Infinity (Num b) = False"
| "le Infinity Infinity = True"
| "le Infinity NegInfinity = False"
| "le NegInfinity (Num b) = True"
| "le NegInfinity Infinity = True"
| "le NegInfinity NegInfinity = True"
| "le NaN y = False"
| "le x NaN = False"

text \<open>The operators \<open>+ - * / < <=\<close> of the source are written as such on numbers.\<close>

instantiation number :: "{plus, minus, uminus, times, inverse, ord}"
begin

definition plus_number :: "number \<Rightarrow> number \<Rightarrow> number" where
  "plus_number x y = add x y"

definition uminus_number :: "number \<Rightarrow> number" where
  "uminus_number x = neg x"

definition minus_number :: "number \<Rightarrow> number \<Rightarrow> number" where
  "minus_number x y = add x (neg y)"

definition times_number :: "number \<Rightarrow> number \<Rightarrow> number" where
  "times_number x y = mul x y"

definition divide_number :: "number \<Rightarrow> number \<Rightarrow> number" where
  "divide_number x y = quot x y"

definition inverse_number :: "number \<Rightarrow> number" where
  "inverse_number x = quot (Num 1) x"

definition less_number :: "number \<Rightarrow> number \<Rightarrow> bool" where
  "less_number x y = lt x y"

definition less_eq_number :: "number \<Rightarrow> number \<Rightarrow> bool" where
  "less_eq_number x y = le x y"

instance ..

end

text \<open>
  \<open>x || d\<close> on numbers: \<open>d\<close> when \<open>x\<close> is falsy (\<open>0\<close>, \<open>NaN\<close> or \<open>undefined\<close>),
  else \<open>x\<close>.
\<close>

definition falsy :: "number \<Rightarrow> bool" where
  "falsy x = (x = Num 0 \<or> x = NaN)"

definition or_else :: "number \<Rightarrow> number \<Rightarrow> number" where
  "or_else x d = (if falsy x then d else x)"

subsection \<open>The Math object\<close>

text \<open>
  \<open>Math.PI\<close> is the double nearest to \<open>\<pi>\<close>. ECMAScript leaves the accuracy of
  \<open>Math.sin\<close>, \<open>cos\<close>, \<open>acos\<close> and \<open>pow\<close> to the implementation and fixes only
  their special cases; they are modelled as correctly rounded: the exact function,
  then \<open>rnd\<close>.
\<close>

definition Math_PI :: number where
  "Math_PI = rnd pi"

fun Math_sin :: "number \<Rightarrow> number" where
  "Math_sin (Num a) = rnd (sin a)"
| "Math_sin Infinity = NaN"
| "Math_sin NegInfinity = NaN"
| "Math_sin NaN = NaN"

fun Math_cos :: "number \<Rightarrow> number" where
  "Math_cos (Num a) = rnd (cos a)"
| "Math_cos Infinity = NaN"
| "Math_cos NegInfinity = NaN"
| "Math_cos NaN = NaN"

fun Math_acos :: "number \<Rightarrow> number" where
  "Math_acos (Num a) = (if - 1 \<le> a \<and> a \<le> 1 then rnd (arccos a) else NaN)"
| "Math_acos Infinity = NaN"
| "Math_acos NegInfinity = NaN"
| "Math_acos NaN = NaN"

text \<open>
  \<open>Math.pow(base, exponent)\<close>, case by case as ECMAScript lists them: an exponent of
  zero gives 1 whatever the base, a negative base with a fractional exponent gives
  \<open>NaN\<close>, and zero to a negative exponent gives \<open>Infinity\<close>.
\<close>

definition is_integer :: "real \<Rightarrow> bool" where
  "is_integer e = (of_int \<lfloor>e\<rfloor> = e)"

definition is_odd_integer :: "real \<Rightarrow> bool" where
  "is_odd_integer e = (is_integer e \<and> odd \<lfloor>e\<rfloor>)"

fun Math_pow :: "number \<Rightarrow> number \<Rightarrow> number" where
  "Math_pow b NaN = NaN"
| "Math_pow b (Num e) =
     (if e = 0 then Num 1
      else case b of
        NaN \<Rightarrow> NaN
      | Infinity \<Rightarrow> (if 0 < e then Infinity else Num 0)
      | NegInfinity \<Rightarrow>
          (if 0 < e then (if is_odd_integer e then NegInfinity else Infinity) else Num 0)
      | Num a \<Rightarrow>
          (if a = 0 then (if 0 < e then Num 0 else Infinity)
           else if 0 < a then rnd (a powr e)
           else if is_integer e then rnd (a powi \<lfloor>e\<rfloor>)
           else NaN))"
| "Math_pow b Infinity =
     (case b of
        NaN \<Rightarrow> NaN
      | Infinity \<Rightarrow> Infinity
      | NegInfinity \<Rightarrow> Infinity
      | Num a \<Rightarrow> (if 1 < \<bar>a\<bar> then Infinity else if \<bar>a\<bar> = 1 then NaN else Num 0))"
| "Math_pow b NegInfinity =
     (case b of
        NaN \<Rightarrow> NaN
      | Infinity \<Rightarrow> Num 0
      | NegInfinity \<Rightarrow> Num 0
      | Num a \<Rightarrow> (if 1 < \<bar>a\<bar> then Num 0 else if \<bar>a\<bar> = 1 then NaN else Infinity))"

section \<open>The raw curves of Fx.Transitions.js\<close>

text \<open>
  \<^verbatim>\<open>linear: function(t, c, d){ return c * (t / d); }\<close>
\<close>

definition linear :: "number \<Rightarrow> number \<Rightarrow> number \<Rightarrow> number" where
  "linear t c d = c * (t / d)"

text \<open>
  \<^verbatim>\<open>Pow: function(p, x){ x = x || 6; return Math.pow(p, x); }\<close>
\<close>

definition Pow :: "number \<Rightarrow> number \<Rightarrow> number" where
  "Pow p x = (let x = or_else x (Num 6) in Math_pow p x)"

text \<open>
  \<^verbatim>\<open>Expo: function(p){ return Math.pow(2, 8 * (p - 1)); }\<close>
\<close>

definition Expo :: "number \<Rightarrow> number" where
  "Expo p = Math_pow (Num 2) (Num 8 * (p - Num 1))"

text \<open>
  \<^verbatim>\<open>Circ: function(p){ return 1 - Math.sin(Math.acos(p)); }\<close>
\<close>

definition Circ :: "number \<Rightarrow> number" where
  "Circ p = Num 1 - Math_sin (Math_acos p)"

text \<open>
  \<^verbatim>\<open>Sine: function(p){ return 1 - Math.sin((1 - p) * Math.PI / 2); }\<close>
\<close>

definition Sine :: "number \<Rightarrow> number" where
  "Sine p = Num 1 - Math_sin ((Num 1 - p) * Math_PI / Num 2)"

text \<open>
  \<^verbatim>\<open>Back: function(p, x){ x = x || 1.6180; return Math.pow(p, 2) * ((x + 1) * p - x); }\<close>
\<close>

definition Back :: "number \<Rightarrow> number \<Rightarrow> number" where
  "Back p x = (let x = or_else x (lit 1.6180) in Math_pow p (Num 2) * ((x + Num 1) * p - x))"

text \<open>
  \<^verbatim>\<open>
  Bounce: function(p){
      var y, b = 7.5625;
      p = 1 - p;
      if (p < (1 / 2.75)) y = b * Math.pow(p, 2);
      else if (p < (2 / 2.75)) y = b * (p -= (1.5 / 2.75)) * p + 0.75;
      else if (p < (2.5 / 2.75)) y = b * (p -= (2.25 / 2.75)) * p + 0.9375;
      else y = b * (p -= (2.625 / 2.75)) * p + 0.984375;
      return - y + 1;
  }\<close>
  In \<open>b * (p -= k) * p\<close> the assignment happens before the second factor is read, so
  both factors are the decremented \<open>p\<close>.
\<close>

definition Bounce :: "number \<Rightarrow> number" where
  "Bounce p0 =
     (let b = Num 7.5625;
          p = Num 1 - p0;
          y = (if p < Num 1 / Num 2.75 then b * Math_pow p (Num 2)
               else if p < Num 2 / Num 2.75 then
                 (let p = p - Num 1.5 / Num 2.75 in b * p * p + Num 0.75)
               else if p < Num 2.5 / Num 2.75 then
                 (let p = p - Num 2.25 / Num 2.75 in b * p * p + Num 0.9375)
               else
                 (let p = p - Num 2.625 / Num 2.75 in b * p * p + Num 0.984375))
      in - y + Num 1)"

text \<open>
  \<^verbatim>\<open>
  Elastic: function(p, x, y){
      y = y || 300;
      x = y * 0.3 / (x || 1);
      return Math.pow(2, 10 * (p -= 1)) * Math.cos(2 * Math.PI * p * y / x);
  }\<close>
\<close>

definition Elastic :: "number \<Rightarrow> number \<Rightarrow> number \<Rightarrow> number" where
  "Elastic p0 x0 y0 =
     (let y = or_else y0 (Num 300);
          x = y * lit 0.3 / or_else x0 (Num 1);
          p = p0 - Num 1
      in Math_pow (Num 2) (Num 10 * p) * Math_cos (Num 2 * Math_PI * p * y / x))"

section \<open>Function objects\<close>

text \<open>
  A JavaScript function receives the list of its actual arguments; a parameter beyond the
  end of that list is \<open>undefined\<close>.
\<close>

type_synonym jsfun = "number list \<Rightarrow> number"

definition arg :: "nat \<Rightarrow> number list \<Rightarrow> number" where
  "arg n arguments = (if n < length arguments then arguments ! n else NaN)"

definition fn1 :: "(number \<Rightarrow> number) \<Rightarrow> jsfun" where
  "fn1 f arguments = f (arg 0 arguments)"

definition fn2 :: "(number \<Rightarrow> number \<Rightarrow> number) \<Rightarrow> jsfun" where
  "fn2 f arguments = f (arg 0 arguments) (arg 1 arguments)"

definition fn3 :: "(number \<Rightarrow> number \<Rightarrow> number \<Rightarrow> number) \<Rightarrow> jsfun" where
  "fn3 f arguments = f (arg 0 arguments) (arg 1 arguments) (arg 2 arguments)"

text \<open>
  \<^verbatim>\<open>
  Fx.Shared.SetTransitionValues = function(transition){
      return function(){
          var args = $A(arguments);
          return function(){
              return transition.apply(Fx.Transitions, $A(arguments).concat(args));
          };
      }
  };\<close>
\<close>

definition SetTransitionValues :: "jsfun \<Rightarrow> number list \<Rightarrow> jsfun" where
  "SetTransitionValues transition = (\<lambda>args. \<lambda>arguments. transition (arguments @ args))"

text \<open>
  A registered function with its \<open>set\<close> property (absent on \<open>linear\<close>), and a family:
  the raw function with its three properties \<open>easeIn\<close>, \<open>easeOut\<close>, \<open>easeInOut\<close>.
\<close>

record curve =
  call :: jsfun
  set_prop :: "(number list \<Rightarrow> jsfun) option"

record family =
  raw :: jsfun
  easeIn :: curve
  easeOut :: curve
  easeInOut :: curve

datatype entry = Curve curve | Family family

type_synonym registry = "string \<rightharpoonup> entry"

text \<open>\<open>f.set = Fx.Shared.SetTransitionValues(f)\<close> on a function \<open>f\<close>.\<close>

definition with_set :: "jsfun \<Rightarrow> curve" where
  "with_set f = \<lparr>call = f, set_prop = Some (SetTransitionValues f)\<rparr>"

text \<open>\<open>type.toLowerCase()\<close> and \<open>type.test(/^[A-Z]/)\<close>, on ASCII names.\<close>

definition lower_char :: "char \<Rightarrow> char" where
  "lower_char c =
     (case map_of (zip ''ABCDEFGHIJKLMNOPQRSTUVWXYZ'' ''abcdefghijklmnopqrstuvwxyz'') c of
        Some d \<Rightarrow> d
      | None \<Rightarrow> c)"

definition toLowerCase :: "string \<Rightarrow> string" where
  "toLowerCase s = map lower_char s"

fun test_upper :: "string \<Rightarrow> bool" where
  "test_upper [] = False"
| "test_upper (c # cs) = (c \<in> set ''ABCDEFGHIJKLMNOPQRSTUVWXYZ'')"

section \<open>Deriving the three eases\<close>

text \<open>
  \<^verbatim>\<open>
  Fx.Shared.CreateTransitionEases = function(transition, type){
      $extend(transition, {
          easeIn: function(p, x, y, z){
              return transition(p, x, y, z);
          },
          easeOut: function(p, x, y, z){
              return 1 - transition(1 - p, x, y, z);
          },
          easeInOut: function(p, x, y, z){
              return (p <= 0.5) ? transition(2 * p, x, y, z) / 2
                                : (2 - transition(2 * (1 - p), x, y, z)) / 2;
          }
      });
      //compatibility
      ['In', 'Out', 'InOut'].each(function(mode){
          transition['ease' + mode].set = Fx.Shared.SetTransitionValues(transition['ease' + mode]);
          Fx.Transitions[type.toLowerCase() + mode] = transition['ease' + mode];
      });
  };\<close>
  The three closures come first; the loop over the three modes is written out.
\<close>

definition easeIn_fn :: "jsfun \<Rightarrow> jsfun" where
  "easeIn_fn transition arguments =
     (let p = arg 0 arguments; x = arg 1 arguments; y = arg 2 arguments; z = arg 3 arguments
      in transition [p, x, y, z])"

definition easeOut_fn :: "jsfun \<Rightarrow> jsfun" where
  "easeOut_fn transition arguments =
     (let p = arg 0 arguments; x = arg 1 arguments; y = arg 2 arguments; z = arg 3 arguments
      in Num 1 - transition [Num 1 - p, x, y, z])"

definition easeInOut_fn :: "jsfun \<Rightarrow> jsfun" where
  "easeInOut_fn transition arguments =
     (let p = arg 0 arguments; x = arg 1 arguments; y = arg 2 arguments; z = arg 3 arguments
      in if p \<le> Num 0.5 then transition [Num 2 * p, x, y, z] / Num 2
         else (Num 2 - transition [Num 2 * (Num 1 - p), x, y, z]) / Num 2)"

text \<open>The two branches of \<open>easeInOut\<close>, each as a function of its own.\<close>

definition easeInOut_left :: "jsfun \<Rightarrow> jsfun" where
  "easeInOut_left transition arguments =
     (let p = arg 0 arguments; x = arg 1 arguments; y = arg 2 arguments; z = arg 3 arguments
      in transition [Num 2 * p, x, y, z] / Num 2)"

definition easeInOut_right :: "jsfun \<Rightarrow> jsfun" where
  "easeInOut_right transition arguments =
     (let p = arg 0 arguments; x = arg 1 arguments; y = arg 2 arguments; z = arg 3 arguments
      in (Num 2 - transition [Num 2 * (Num 1 - p), x, y, z]) / Num 2)"

definition CreateTransitionEases :: "jsfun \<Rightarrow> string \<Rightarrow> registry \<Rightarrow> family \<times> registry" where
  "CreateTransitionEases transition type reg =
     (let In = with_set (easeIn_fn transition);
          reg = reg(toLowerCase type @ ''In'' \<mapsto> Curve In);
          Out = with_set (easeOut_fn transition);
          reg = reg(toLowerCase type @ ''Out'' \<mapsto> Curve Out);
          InOut = with_set (easeInOut_fn transition);
          reg = reg(toLowerCase type @ ''InOut'' \<mapsto> Curve InOut)
      in (\<lparr>raw = transition, easeIn = In, easeOut = Out, easeInOut = InOut\<rparr>, reg))"

section \<open>The registry Fx.Transitions\<close>

text \<open>
  \<^verbatim>\<open>
  Fx.Transitions.extend = function(transitions){
      for (var type in transitions){
          if (type.test(/^[A-Z]/)) Fx.Shared.CreateTransitionEases(transitions[type], type);
          else transitions[type].set = Fx.Shared.SetTransitionValues(transitions[type]);
          Fx.Transitions[type] = transitions[type];
      }
  };\<close>
  The object literal is the list of its properties in the order they are written.
\<close>

fun extend_one :: "string \<times> jsfun \<Rightarrow> registry \<Rightarrow> registry" where
  "extend_one (type, f) reg =
     (if test_upper type
      then (case CreateTransitionEases f type reg of (fam, reg') \<Rightarrow> reg'(type \<mapsto> Family fam))
      else reg(type \<mapsto> Curve (with_set f)))"

definition Fx_Transitions_extend :: "(string \<times> jsfun) list \<Rightarrow> registry \<Rightarrow> registry" where
  "Fx_Transitions_extend transitions reg = fold extend_one transitions reg"

text \<open>
  \<open>Fx.Transitions = new Abstract({linear: ...})\<close>: \<open>linear\<close> gets no \<open>set\<close>. The
  object's own method \<open>extend\<close> is not a transition and is left out of the map.
\<close>

definition Fx_Transitions_Abstract :: registry where
  "Fx_Transitions_Abstract = [''linear'' \<mapsto> Curve \<lparr>call = fn3 linear, set_prop = None\<rparr>]"

text \<open>The call \<open>Fx.Transitions.extend({Pow: ..., ..., Elastic: ...})\<close>.\<close>

definition Fx_Transitions_extended :: registry where
  "Fx_Transitions_extended =
     Fx_Transitions_extend
       [(''Pow'', fn2 Pow), (''Expo'', fn1 Expo), (''Circ'', fn1 Circ), (''Sine'', fn1 Sine),
        (''Back'', fn2 Back), (''Bounce'', fn1 Bounce), (''Elastic'', fn3 Elastic)]
       Fx_Transitions_Abstract"

text \<open>
  \<^verbatim>\<open>
  ['Quad', 'Cubic', 'Quart', 'Quint'].each(function(transition, i){
      var obj = {};
      obj[transition] = function(p){
          return Fx.Transitions.Pow(p, i + 2);
      };
      Fx.Transitions.extend(obj);
  });\<close>
  \<open>Fx.Transitions.Pow\<close> is read when the closure runs; nothing registered after
  \<open>Pow\<close> replaces it, so it is the raw \<open>Pow\<close>.
\<close>

definition PowN :: "nat \<Rightarrow> jsfun" where
  "PowN i arguments = (let p = arg 0 arguments in Pow p (Num (real (i + 2))))"

definition Fx_Transitions :: registry where
  "Fx_Transitions =
     fold (\<lambda>(transition, i) reg. Fx_Transitions_extend [(transition, PowN i)] reg)
       (zip [''Quad'', ''Cubic'', ''Quart'', ''Quint''] [0 ..< 4])
       Fx_Transitions_extended"

text \<open>
  Reading the registry: \<open>Fx.Transitions[name](args)\<close> calls a bare curve, an alias or the
  raw function of a family, and \<open>Fx.Transitions[name].easeIn(args)\<close> (or \<open>easeOut\<close>,
  \<open>easeInOut\<close>) calls an ease of a family. \<open>None\<close> is the TypeError of calling a
  property that is not there.
\<close>

definition invoke :: "registry \<Rightarrow> string \<Rightarrow> number list \<Rightarrow> number option" where
  "invoke reg name arguments =
     (case reg name of
        None \<Rightarrow> None
      | Some (Curve c) \<Rightarrow> Some (call c arguments)
      | Some (Family f) \<Rightarrow> Some (raw f arguments))"

definition invoke_ease ::
  "registry \<Rightarrow> string \<Rightarrow> (family \<Rightarrow> curve) \<Rightarrow> number list \<Rightarrow> number option" where
  "invoke_ease reg name mode arguments =
     (case reg name of
        None \<Rightarrow> None
      | Some (Curve c) \<Rightarrow> None
      | Some (Family f) \<Rightarrow> Some (call (mode f) arguments))"

text \<open>
  What \<open>CreateTransitionEases\<close> leaves on a raw function: the three eases, each with
  its \<open>set\<close>.
\<close>

definition eases_of :: "jsfun \<Rightarrow> family" where
  "eases_of f =
     \<lparr>raw = f, easeIn = with_set (easeIn_fn f), easeOut = with_set (easeOut_fn f),
      easeInOut = with_set (easeInOut_fn f)\<rparr>"

text \<open>
  The registry once the script has run, as an association list with the newest entry
  first. Lemma \<open>Fx_Transitions_eq\<close> below derives it from the script.
\<close>

definition Fx_Transitions_table :: "(string \<times> entry) list" where
  "Fx_Transitions_table =
     [(''Quint'', Family (eases_of (PowN 3))),
      (''quintInOut'', Curve (easeInOut (eases_of (PowN 3)))),
      (''quintOut'', Curve (easeOut (eases_of (PowN 3)))),
      (''quintIn'', Curve (easeIn (eases_of (PowN 3)))),
      (''Quart'', Family (eases_of (PowN 2))),
      (''quartInOut'', Curve (easeInOut (eases_of (PowN 2)))),
      (''quartOut'', Curve (easeOut (eases_of (PowN 2)))),
      (''quartIn'', Curve (easeIn (eases_of (PowN 2)))),
      (''Cubic'', Family (eases_of (PowN 1))),
      (''cubicInOut'', Curve (easeInOut (eases_of (PowN 1)))),
      (''cubicOut'', Curve (easeOut (eases_of (PowN 1)))),
      (''cubicIn'', Curve (easeIn (eases_of (PowN 1)))),
      (''Quad'', Family (eases_of (PowN 0))),
      (''quadInOut'', Curve (easeInOut (eases_of (PowN 0)))),
      (''quadOut'', Curve (easeOut (eases_of (PowN 0)))),
      (''quadIn'', Curve (easeIn (eases_of (PowN 0)))),
      (''Elastic'', Family (eases_of (fn3 Elastic))),
      (''elasticInOut'', Curve (easeInOut (eases_of (fn3 Elastic)))),
      (''elasticOut'', Curve (easeOut (eases_of (fn3 Elastic)))),
      (''elasticIn'', Curve (easeIn (eases_of (fn3 Elastic)))),
      (''Bounce'', Family (eases_of (fn1 Bounce))),
      (''bounceInOut'', Curve (easeInOut (eases_of (fn1 Bounce)))),
      (''bounceOut'', Curve (easeOut (eases_of (fn1 Bounce)))),
      (''bounceIn'', Curve (easeIn (eases_of (fn1 Bounce)))),
      (''Back'', Family (eases_of (fn2 Back))),
      (''backInOut'', Curve (easeInOut (eases_of (fn2 Back)))),
      (''backOut'', Curve (easeOut (eases_of (fn2 Back)))),
      (''backIn'', Curve (easeIn (eases_of (fn2 Back)))),
      (''Sine'', Family (eases_of (fn1 Sine))),
      (''sineInOut'', Curve (easeInOut (eases_of (fn1 Sine)))),
      (''sineOut'', Curve (easeOut (eases_of (fn1 Sine)))),
      (''sineIn'', Curve (easeIn (eases_of (fn1 Sine)))),
      (''Circ'', Family (eases_of (fn1 Circ))),
      (''circInOut'', Curve (easeInOut (eases_of (fn1 Circ)))),
      (''circOut'', Curve (easeOut (eases_of (fn1 Circ)))),
      (''circIn'', Curve (easeIn (eases_of (fn1 Circ)))),
      (''Expo'', Family (eases_of (fn1 Expo))),
      (''expoInOut'', Curve (easeInOut (eases_of (fn1 Expo)))),
      (''expoOut'', Curve (easeOut (eases_of (fn1 Expo)))),
      (''expoIn'', Curve (easeIn (eases_of (fn1 Expo)))),
      (''Pow'', Family (eases_of (fn2 Pow))),
      (''powInOut'', Curve (easeInOut (eases_of (fn2 Pow)))),
      (''powOut'', Curve (easeOut (eases_of (fn2 Pow)))),
      (''powIn'', Curve (easeIn (eases_of (fn2 Pow)))),
      (''linear'', Curve \<lparr>call = fn3 linear, set_prop = None\<rparr>)]"

text \<open>
  A finite number within a tolerance of a real: how a result that is only right up to
  rounding is stated.
\<close>

fun near :: "number \<Rightarrow> real \<Rightarrow> real \<Rightarrow> bool" where
  "near (Num v) c tol = (\<bar>v - c\<bar> \<le> tol)"
| "near Infinity c tol = False"
| "near NegInfinity c tol = False"
| "near NaN c tol = False"

section \<open>Bound functions and the arrays they capture\<close>

text \<open>
  \<open>SetTransitionValues\<close> above gives a bound function by what it computes. To say what
  binding and calling leave untouched, the same source is modelled once more with its
  arrays in a store. The store is the list of the arrays allocated so far and an address
  is a position in it. \<open>$A(arguments)\<close> and \<open>concat\<close> each allocate a new array and write
  to no other.

  A function value is a function of the script, which computes on its arguments and
  allocates nothing, or an inner closure of \<open>SetTransitionValues\<close>, which holds its
  \<open>transition\<close> and the address of its \<open>args\<close>.
\<close>

type_synonym addr = nat

type_synonym store = "number list list"

datatype closure = Native jsfun | Bound closure addr

definition alloc :: "number list \<Rightarrow> store \<Rightarrow> addr \<times> store" where
  "alloc xs h = (length h, h @ [xs])"

definition read_array :: "store \<Rightarrow> addr \<Rightarrow> number list option" where
  "read_array h a = (if a < length h then Some (h ! a) else None)"

text \<open>
  The middle function \<open>function(){ var args = $A(arguments); return function(){...}; }\<close>
  of \<open>SetTransitionValues(transition)\<close>, called with the parameters to fix.
\<close>

definition bind :: "closure \<Rightarrow> number list \<Rightarrow> store \<Rightarrow> closure \<times> store" where
  "bind transition arguments h =
     (let (args, h) = alloc arguments h in (Bound transition args, h))"

text \<open>
  Calling a function value. The inner closure runs
  \<open>transition.apply(Fx.Transitions, $A(arguments).concat(args))\<close>: a copy of its own
  arguments, a new array for the concatenation, and the call of \<open>transition\<close> on that
  array's elements. \<open>None\<close> stands for an address that is not in the store.
\<close>

fun call_closure :: "closure \<Rightarrow> number list \<Rightarrow> store \<Rightarrow> (number \<times> store) option" where
  "call_closure (Native f) arguments h = Some (f arguments, h)"
| "call_closure (Bound transition args) arguments h =
     (let (a, h) = alloc arguments h
      in case (read_array h a, read_array h args) of
           (Some xs, Some ys) \<Rightarrow>
             (let (c, h) = alloc (xs @ ys) h
              in case read_array h c of
                   Some zs \<Rightarrow> call_closure transition zs h
                 | None \<Rightarrow> None)
         | _ \<Rightarrow> None)"

text \<open>The arrays a function value refers to are in the store.\<close>

fun in_store :: "closure \<Rightarrow> store \<Rightarrow> bool" where
  "in_store (Native f) h = True"
| "in_store (Bound transition args) h = (args < length h \<and> in_store transition h)"

definition result :: "(number \<times> store) option \<Rightarrow> number option" where
  "result r = map_option fst r"

section \<open>Rounding\<close>

lemma round_even_of_int [simp]: "round_even (of_int n) = n"
  by (simp add: round_even_def)

lemma round_even_err: "\<bar>of_int (round_even y) - y\<bar> \<le> 1 / 2"
proof -
  have "of_int \<lfloor>y\<rfloor> \<le> y" "y < of_int \<lfloor>y\<rfloor> + 1"
    by linarith+
  then show ?thesis
    by (auto simp add: round_even_def Let_def)
qed

lemma round_even_minus: "round_even (- y) = - round_even y"
proof (cases "y = of_int \<lfloor>y\<rfloor>")
  case True
  then obtain n where "y = of_int n" ..
  then have "- y = of_int (- n)" by simp
  then show ?thesis
    using \<open>y = of_int n\<close> by (simp only: round_even_of_int)
next
  case False
  then have lt: "of_int \<lfloor>y\<rfloor> < y" "y < of_int \<lfloor>y\<rfloor> + 1"
    by linarith+
  then have fl: "\<lfloor>- y\<rfloor> = - \<lfloor>y\<rfloor> - 1"
    by (intro floor_unique) (simp_all, linarith+)
  show ?thesis
    using lt by (auto simp add: round_even_def Let_def fl)
qed

lemma exponent_minus [simp]: "exponent (- x) = exponent x"
  by (simp add: exponent_def)

lemma nearest_0 [simp]: "nearest 0 = 0"
  by (simp add: nearest_def)

lemma nearest_minus: "nearest (- x) = - nearest x"
  by (simp add: nearest_def Let_def round_even_minus)

lemma rnd_minus: "rnd (- x) = - rnd x"
proof (cases "x = 0")
  case True
  then show ?thesis
    by (simp add: rnd_def uminus_number_def)
next
  case False
  then show ?thesis
    by (auto simp add: rnd_def Let_def nearest_minus uminus_number_def)
qed

lemma exponent_eq:
  assumes "2 powr of_int e \<le> \<bar>x\<bar>" "\<bar>x\<bar> < 2 powr of_int (e + 1)" "- 1022 \<le> e"
  shows "exponent x = e"
proof -
  have "0 < \<bar>x\<bar>"
    using assms(1) by (smt (verit) powr_gt_zero)
  then have "\<lfloor>log 2 \<bar>x\<bar>\<rfloor> = e"
    using assms(1,2) by (simp add: floor_log_eq_powr_iff)
  then show ?thesis
    using assms(3) by (simp add: exponent_def)
qed

lemma nearest_eval:
  assumes "2 powr of_int e \<le> \<bar>x\<bar>" "\<bar>x\<bar> < 2 powr of_int (e + 1)" "- 1022 \<le> e"
  shows "nearest x = of_int (round_even (x / 2 powr of_int (e - 52))) * 2 powr of_int (e - 52)"
proof -
  have "x \<noteq> 0"
    using assms(1) by (smt (verit) powr_gt_zero)
  then show ?thesis
    by (simp add: nearest_def exponent_eq [OF assms] Let_def)
qed

text \<open>
  Rounding a given real: the binade \<open>e\<close> and the integer \<open>n\<close> are supplied and the
  side conditions are computed.
\<close>

lemma rnd_eval:
  assumes "2 powr of_int e \<le> \<bar>x\<bar>" "\<bar>x\<bar> < 2 powr of_int (e + 1)" "- 1022 \<le> e"
    and "round_even (x / 2 powr of_int (e - 52)) = n"
    and "r = of_int n * 2 powr of_int (e - 52)"
    and "\<bar>r\<bar> < 2 ^ 1024"
  shows "rnd x = Num r"
  using nearest_eval [OF assms(1-3)] assms(4-6) by (simp add: rnd_def)

lemma nearest_err:
  assumes "2 powr (- 1022) \<le> \<bar>x\<bar>"
  shows "\<bar>nearest x - x\<bar> \<le> 2 powr (- 53) * \<bar>x\<bar>"
proof -
  have pos: "0 < \<bar>x\<bar>"
    using assms by (smt (verit) powr_gt_zero)
  define E where "E = \<lfloor>log 2 \<bar>x\<bar>\<rfloor>"
  have E: "2 powr of_int E \<le> \<bar>x\<bar>" "\<bar>x\<bar> < 2 powr of_int (E + 1)"
    using floor_log_eq_powr_iff [of "\<bar>x\<bar>" 2 E] pos by (simp_all add: E_def)
  have "- 1022 \<le> log 2 \<bar>x\<bar>"
    using assms pos by (simp add: le_log_iff)
  then have "- 1022 \<le> E"
    by (simp add: E_def le_floor_iff)
  then have ex: "exponent x = E"
    by (simp add: exponent_def E_def)
  define q :: real where "q = 2 powr (of_int E - 52)"
  have q: "0 < q" by (simp add: q_def)
  have nx: "nearest x = of_int (round_even (x / q)) * q"
    using pos by (simp add: nearest_def ex q_def Let_def)
  have "\<bar>of_int (round_even (x / q)) - x / q\<bar> \<le> 1 / 2"
    by (rule round_even_err)
  then have "\<bar>of_int (round_even (x / q)) - x / q\<bar> * q \<le> 1 / 2 * q"
    using q by (simp add: mult_right_mono)
  moreover have "\<bar>of_int (round_even (x / q)) - x / q\<bar> * q = \<bar>nearest x - x\<bar>"
  proof -
    have "\<bar>of_int (round_even (x / q)) - x / q\<bar> * q
        = \<bar>(of_int (round_even (x / q)) - x / q) * q\<bar>"
      using q by (simp add: abs_mult)
    also have "(of_int (round_even (x / q)) - x / q) * q = nearest x - x"
      using q by (simp add: nx algebra_simps)
    finally show ?thesis .
  qed
  moreover have "1 / 2 * q = 2 powr (- 53) * 2 powr of_int E"
  proof -
    have "(2::real) powr (- 53) * 2 powr of_int E
        = 2 powr (- 1) * 2 powr (- 52) * 2 powr of_int E"
      by (simp add: powr_minus_divide)
    also have "\<dots> = 2 powr (- 1) * q"
      by (simp add: q_def powr_diff powr_minus_divide)
    also have "\<dots> = 1 / 2 * q"
      by (simp add: powr_minus_divide)
    finally show ?thesis by simp
  qed
  moreover have "2 powr (- 53) * 2 powr of_int E \<le> 2 powr (- 53) * \<bar>x\<bar>"
    using E(1) by (simp add: mult_left_mono)
  ultimately show ?thesis
    by linarith
qed

text \<open>
  Within the normal range the rounding is finite and has a relative error of at most
  \<open>2^-53\<close>.
\<close>

lemma rnd_err:
  assumes "2 powr (- 1022) \<le> \<bar>x\<bar>" "\<bar>x\<bar> \<le> 2 ^ 1023"
  obtains r where "rnd x = Num r" "\<bar>r - x\<bar> \<le> 2 powr (- 53) * \<bar>x\<bar>"
proof -
  define M :: real where "M = 2 ^ 1023"
  have M: "0 < M" "2 ^ 1024 = 2 * M"
    by (simp_all add: M_def)
  have e: "\<bar>nearest x - x\<bar> \<le> 2 powr (- 53) * \<bar>x\<bar>"
    using assms(1) by (rule nearest_err)
  have u: "(2::real) powr (- 53) < 1" "(0::real) \<le> 2 powr (- 53)"
    by (simp_all add: powr_minus_divide)
  have "2 powr (- 53) * \<bar>x\<bar> \<le> 2 powr (- 53) * M"
    using assms(2) u(2) unfolding M_def by (intro mult_left_mono)
  moreover have "2 powr (- 53) * M < 1 * M"
    using u(1) M(1) by (intro mult_strict_right_mono)
  ultimately have "\<bar>nearest x\<bar> < 2 * M"
    using e assms(2) unfolding M_def [symmetric] by linarith
  then have "\<not> 2 ^ 1024 \<le> \<bar>nearest x\<bar>"
    unfolding M(2) by simp
  then have "rnd x = Num (nearest x)"
    unfolding rnd_def Let_def by (simp only: if_False)
  then show ?thesis
    using e that by blast
qed

lemma nearest_dyadic:
  assumes "x = of_int m * 2 powr of_int e" "\<bar>m\<bar> < 2 ^ 53" "- 1074 \<le> e"
  shows "nearest x = x"
proof (cases "m = 0")
  case True
  then show ?thesis using assms(1) by (simp add: nearest_def)
next
  case False
  then have x0: "x \<noteq> 0" and pos: "0 < \<bar>x\<bar>"
    using assms(1) by simp_all
  define E where "E = exponent x"
  have le: "E - 52 \<le> e"
  proof (cases "\<lfloor>log 2 \<bar>x\<bar>\<rfloor> \<le> - 1022")
    case True
    then have "E = - 1022" by (simp add: E_def exponent_def)
    then show ?thesis using assms(3) by simp
  next
    case False
    then have E: "E = \<lfloor>log 2 \<bar>x\<bar>\<rfloor>" by (simp add: E_def exponent_def)
    have "\<bar>x\<bar> = \<bar>of_int m\<bar> * 2 powr of_int e"
      using assms(1) by (simp add: abs_mult)
    moreover have "\<bar>real_of_int m\<bar> < 2 ^ 53"
      using assms(2) by (metis of_int_abs of_int_less_numeral_power_cancel_iff)
    ultimately have "\<bar>x\<bar> < 2 ^ 53 * 2 powr of_int e"
      by (simp add: mult_strict_right_mono)
    also have "\<dots> = 2 powr of_int (e + 53)"
      by (simp add: powr_add)
    finally have "log 2 \<bar>x\<bar> < of_int (e + 53)"
      using pos by (simp add: log_less_iff del: of_int_add)
    then have "\<lfloor>log 2 \<bar>x\<bar>\<rfloor> < e + 53"
      by (simp add: floor_less_iff)
    then show ?thesis using E by simp
  qed
  define k where "k = nat (e - (E - 52))"
  have k: "of_int e = of_int (E - 52) + real k"
    using le by (simp add: k_def)
  define q :: real where "q = 2 powr (of_int E - 52)"
  have q: "0 < q" by (simp add: q_def)
  have "(2::real) powr of_int e = q * 2 powr real k"
    unfolding q_def k by (simp add: powr_add)
  then have "x = of_int m * (q * 2 powr real k)"
    using assms(1) by simp
  also have "\<dots> = of_int (m * 2 ^ k) * q"
    by (simp add: powr_realpow)
  finally have xq: "x = of_int (m * 2 ^ k) * q" .
  then have "x / q = of_int (m * 2 ^ k)"
    using q by simp
  then have "round_even (x / q) = m * 2 ^ k"
    by (simp only: round_even_of_int)
  then have "nearest x = of_int (m * 2 ^ k) * q"
    using x0 by (simp add: nearest_def E_def [symmetric] q_def [symmetric] Let_def)
  then show ?thesis using xq by simp
qed

lemma rnd_dyadic:
  assumes "x = of_int m * 2 powr of_int e" "\<bar>m\<bar> < 2 ^ 53" "- 1074 \<le> e" "\<bar>x\<bar> < 2 ^ 1024"
  shows "rnd x = Num x"
  using nearest_dyadic [OF assms(1-3)] assms(4) by (simp add: rnd_def)

lemma rnd_int:
  assumes "\<bar>m\<bar> < 2 ^ 53"
  shows "rnd (of_int m) = Num (of_int m)"
proof -
  have "\<bar>real_of_int m\<bar> < 2 ^ 53"
    using assms by (metis of_int_abs of_int_less_numeral_power_cancel_iff)
  moreover have "(2::real) ^ 53 < 2 ^ 1024"
    by simp
  ultimately have "\<bar>real_of_int m\<bar> < 2 ^ 1024"
    by linarith
  then show ?thesis
    using rnd_dyadic [of "of_int m" m 0] assms by simp
qed

lemma rnd_frac:
  assumes "\<bar>m\<bar> < 2 ^ 53" "k \<le> 1074"
  shows "rnd (of_int m / 2 ^ k) = Num (of_int m / 2 ^ k)"
proof -
  have "\<bar>real_of_int m\<bar> < 2 ^ 53"
    using assms(1) by (metis of_int_abs of_int_less_numeral_power_cancel_iff)
  moreover have "\<bar>real_of_int m / 2 ^ k\<bar> \<le> \<bar>real_of_int m\<bar>"
  proof -
    have "(1::real) \<le> 2 ^ k" by simp
    then have "\<bar>real_of_int m\<bar> / 2 ^ k \<le> \<bar>real_of_int m\<bar> / 1"
      by (intro divide_left_mono) simp_all
    then show ?thesis by (simp add: abs_divide)
  qed
  moreover have "(2::real) ^ 53 < 2 ^ 1024"
    by simp
  ultimately have b: "\<bar>real_of_int m / 2 ^ k\<bar> < 2 ^ 1024"
    by linarith
  have "real_of_int m / 2 ^ k = of_int m * 2 powr of_int (- int k)"
    by (simp add: powr_minus_divide powr_realpow divide_inverse)
  then show ?thesis
    using rnd_dyadic [of "of_int m / 2 ^ k" m "- int k"] assms b by simp
qed

lemma rnd_0 [simp]: "rnd 0 = Num 0"
  using rnd_int [of 0] by simp

lemma rnd_1 [simp]: "rnd 1 = Num 1"
  using rnd_int [of 1] by simp

lemma rnd_minus_1 [simp]: "rnd (- 1) = Num (- 1)"
  using rnd_int [of "- 1"] by simp

lemma rnd_numeral [simp]: "numeral n < (2::int) ^ 53 \<Longrightarrow> rnd (numeral n) = Num (numeral n)"
  using rnd_int [of "numeral n"] by simp

lemma rnd_neg_numeral [simp]:
  "numeral n < (2::int) ^ 53 \<Longrightarrow> rnd (- numeral n) = Num (- numeral n)"
  using rnd_int [of "- numeral n"] by simp

text \<open>Fractions with a small power of two below.\<close>
lemma rnd_fracs [simp]:
  "numeral n < (2::int) ^ 53 \<Longrightarrow> rnd (numeral n / 2) = Num (numeral n / 2)"
  "numeral n < (2::int) ^ 53 \<Longrightarrow> rnd (- (numeral n / 2)) = Num (- (numeral n / 2))"
  "rnd (1 / 2) = Num (1 / 2)"
  "rnd (- (1 / 2)) = Num (- (1 / 2))"
  "numeral n < (2::int) ^ 53 \<Longrightarrow> rnd (numeral n / 4) = Num (numeral n / 4)"
  "numeral n < (2::int) ^ 53 \<Longrightarrow> rnd (- (numeral n / 4)) = Num (- (numeral n / 4))"
  "rnd (1 / 4) = Num (1 / 4)"
  "rnd (- (1 / 4)) = Num (- (1 / 4))"
  "numeral n < (2::int) ^ 53 \<Longrightarrow> rnd (numeral n / 8) = Num (numeral n / 8)"
  "numeral n < (2::int) ^ 53 \<Longrightarrow> rnd (- (numeral n / 8)) = Num (- (numeral n / 8))"
  "rnd (1 / 8) = Num (1 / 8)"
  "rnd (- (1 / 8)) = Num (- (1 / 8))"
  "numeral n < (2::int) ^ 53 \<Longrightarrow> rnd (numeral n / 16) = Num (numeral n / 16)"
  "numeral n < (2::int) ^ 53 \<Longrightarrow> rnd (- (numeral n / 16)) = Num (- (numeral n / 16))"
  "rnd (1 / 16) = Num (1 / 16)"
  "rnd (- (1 / 16)) = Num (- (1 / 16))"
  "numeral n < (2::int) ^ 53 \<Longrightarrow> rnd (numeral n / 32) = Num (numeral n / 32)"
  "numeral n < (2::int) ^ 53 \<Longrightarrow> rnd (- (numeral n / 32)) = Num (- (numeral n / 32))"
  "rnd (1 / 32) = Num (1 / 32)"
  "rnd (- (1 / 32)) = Num (- (1 / 32))"
  "numeral n < (2::int) ^ 53 \<Longrightarrow> rnd (numeral n / 64) = Num (numeral n / 64)"
  "numeral n < (2::int) ^ 53 \<Longrightarrow> rnd (- (numeral n / 64)) = Num (- (numeral n / 64))"
  "rnd (1 / 64) = Num (1 / 64)"
  "rnd (- (1 / 64)) = Num (- (1 / 64))"
  "numeral n < (2::int) ^ 53 \<Longrightarrow> rnd (numeral n / 128) = Num (numeral n / 128)"
  "numeral n < (2::int) ^ 53 \<Longrightarrow> rnd (- (numeral n / 128)) = Num (- (numeral n / 128))"
  "rnd (1 / 128) = Num (1 / 128)"
  "rnd (- (1 / 128)) = Num (- (1 / 128))"
  "numeral n < (2::int) ^ 53 \<Longrightarrow> rnd (numeral n / 256) = Num (numeral n / 256)"
  "numeral n < (2::int) ^ 53 \<Longrightarrow> rnd (- (numeral n / 256)) = Num (- (numeral n / 256))"
  "rnd (1 / 256) = Num (1 / 256)"
  "rnd (- (1 / 256)) = Num (- (1 / 256))"
  "numeral n < (2::int) ^ 53 \<Longrightarrow> rnd (numeral n / 512) = Num (numeral n / 512)"
  "numeral n < (2::int) ^ 53 \<Longrightarrow> rnd (- (numeral n / 512)) = Num (- (numeral n / 512))"
  "rnd (1 / 512) = Num (1 / 512)"
  "rnd (- (1 / 512)) = Num (- (1 / 512))"
  "numeral n < (2::int) ^ 53 \<Longrightarrow> rnd (numeral n / 1024) = Num (numeral n / 1024)"
  "numeral n < (2::int) ^ 53 \<Longrightarrow> rnd (- (numeral n / 1024)) = Num (- (numeral n / 1024))"
  "rnd (1 / 1024) = Num (1 / 1024)"
  "rnd (- (1 / 1024)) = Num (- (1 / 1024))"
  "numeral n < (2::int) ^ 53 \<Longrightarrow> rnd (numeral n / 2048) = Num (numeral n / 2048)"
  "numeral n < (2::int) ^ 53 \<Longrightarrow> rnd (- (numeral n / 2048)) = Num (- (numeral n / 2048))"
  "rnd (1 / 2048) = Num (1 / 2048)"
  "rnd (- (1 / 2048)) = Num (- (1 / 2048))"
  "numeral n < (2::int) ^ 53 \<Longrightarrow> rnd (numeral n / 4096) = Num (numeral n / 4096)"
  "numeral n < (2::int) ^ 53 \<Longrightarrow> rnd (- (numeral n / 4096)) = Num (- (numeral n / 4096))"
  "rnd (1 / 4096) = Num (1 / 4096)"
  "rnd (- (1 / 4096)) = Num (- (1 / 4096))"
  using rnd_frac [of "numeral n" 1] rnd_frac [of "- numeral n" 1] rnd_frac [of 1 1] rnd_frac [of "- 1" 1]
  using rnd_frac [of "numeral n" 2] rnd_frac [of "- numeral n" 2] rnd_frac [of 1 2] rnd_frac [of "- 1" 2]
  using rnd_frac [of "numeral n" 3] rnd_frac [of "- numeral n" 3] rnd_frac [of 1 3] rnd_frac [of "- 1" 3]
  using rnd_frac [of "numeral n" 4] rnd_frac [of "- numeral n" 4] rnd_frac [of 1 4] rnd_frac [of "- 1" 4]
  using rnd_frac [of "numeral n" 5] rnd_frac [of "- numeral n" 5] rnd_frac [of 1 5] rnd_frac [of "- 1" 5]
  using rnd_frac [of "numeral n" 6] rnd_frac [of "- numeral n" 6] rnd_frac [of 1 6] rnd_frac [of "- 1" 6]
  using rnd_frac [of "numeral n" 7] rnd_frac [of "- numeral n" 7] rnd_frac [of 1 7] rnd_frac [of "- 1" 7]
  using rnd_frac [of "numeral n" 8] rnd_frac [of "- numeral n" 8] rnd_frac [of 1 8] rnd_frac [of "- 1" 8]
  using rnd_frac [of "numeral n" 9] rnd_frac [of "- numeral n" 9] rnd_frac [of 1 9] rnd_frac [of "- 1" 9]
  using rnd_frac [of "numeral n" 10] rnd_frac [of "- numeral n" 10] rnd_frac [of 1 10] rnd_frac [of "- 1" 10]
  using rnd_frac [of "numeral n" 11] rnd_frac [of "- numeral n" 11] rnd_frac [of 1 11] rnd_frac [of "- 1" 11]
  using rnd_frac [of "numeral n" 12] rnd_frac [of "- numeral n" 12] rnd_frac [of 1 12] rnd_frac [of "- 1" 12]
  by simp_all

section \<open>Arithmetic on finite numbers\<close>

lemma num_arith [simp]:
  "Num a + Num b = rnd (a + b)"
  "Num a - Num b = rnd (a - b)"
  "Num a * Num b = rnd (a * b)"
  "- Num a = Num (- a)"
  "b \<noteq> 0 \<Longrightarrow> Num a / Num b = rnd (a / b)"
  "(Num a < Num b) = (a < b)"
  "(Num a \<le> Num b) = (a \<le> b)"
  by (simp_all add: plus_number_def minus_number_def times_number_def uminus_number_def
      divide_number_def less_number_def less_eq_number_def)

lemma nan_arith [simp]:
  "NaN + x = NaN" "x + NaN = NaN" "NaN - x = NaN" "x - NaN = NaN"
  "NaN * x = NaN" "x * NaN = NaN" "NaN / x = NaN" "x / NaN = NaN"
  by (cases x; simp add: plus_number_def minus_number_def times_number_def
      divide_number_def)+

lemma arg_simps [simp]:
  "arg n [] = NaN"
  "arg 0 (a # as) = a"
  "arg (Suc n) (a # as) = arg n as"
  by (simp_all add: arg_def)

lemma arg_numeral [simp]:
  "arg (numeral k) (a # as) = arg (pred_numeral k) as"
  by (simp add: arg_def numeral_eq_Suc)

lemma or_else_simps [simp]:
  "or_else NaN d = d"
  "or_else (Num 0) d = d"
  "a \<noteq> 0 \<Longrightarrow> or_else (Num a) d = Num a"
  "or_else Infinity d = Infinity"
  "or_else NegInfinity d = NegInfinity"
  by (simp_all add: or_else_def falsy_def)

text \<open>The two literals that are not doubles, and the product \<open>300 * 0.3\<close>.\<close>

lemma lit_1618: "lit 1.6180 = Num (7286824197085463 / 4503599627370496)"
  unfolding lit_def
  by (rule rnd_eval [where e = 0 and n = 7286824197085463])
    (simp_all add: powr_minus_divide round_even_def)

lemma lit_03: "lit 0.3 = Num (5404319552844595 / 18014398509481984)"
  unfolding lit_def
  by (rule rnd_eval [where e = "- 2" and n = 5404319552844595])
    (simp_all add: powr_minus_divide round_even_def)

lemma mul_300_03: "Num 300 * Num (5404319552844595 / 18014398509481984) = Num 90"
proof -
  have "rnd (300 * (5404319552844595 / 18014398509481984)) = Num 90"
    by (rule rnd_eval [where e = 6 and n = 6333186975989760])
      (simp_all add: powr_minus_divide round_even_def)
  then show ?thesis
    by simp
qed

lemma num_mult_0 [simp]: "Num a * Num 0 = Num 0" "Num 0 * Num a = Num 0"
  by simp_all

section \<open>Error bounds\<close>

text \<open>
  A value known up to \<open>k\<close> units of relative error, multiplied by a constant and
  rounded, is known up to \<open>k + 2\<close> units.
\<close>

lemma rnd_mult_chain:
  assumes a: "\<bar>a - A\<bar> \<le> k * 2 powr (- 53) * \<bar>A\<bar>"
    and k: "0 \<le> k" "k * 2 powr (- 53) \<le> 1 / 2"
    and range: "2 powr (- 1021) \<le> \<bar>A * c\<bar>" "\<bar>A * c\<bar> \<le> 2 ^ 1022"
  obtains b where "rnd (a * c) = Num b" "\<bar>b - A * c\<bar> \<le> (k + 2) * 2 powr (- 53) * \<bar>A * c\<bar>"
proof -
  define u :: real where "u = 2 powr (- 53)"
  define W where "W = \<bar>A * c\<bar>"
  define t where "t = k * u * W"
  have u: "0 < u" "u \<le> 1 / 2"
    by (simp_all add: u_def powr_minus_divide)
  have W: "0 \<le> W"
    by (simp add: W_def)
  have t: "0 \<le> t" "t \<le> 1 / 2 * W"
  proof -
    show "0 \<le> t"
      using k(1) W u(1) unfolding t_def by simp
    show "t \<le> 1 / 2 * W"
      using k(2) W unfolding t_def u_def by (intro mult_right_mono)
  qed
  have "\<bar>a * c - A * c\<bar> = \<bar>a - A\<bar> * \<bar>c\<bar>"
    by (simp add: abs_mult [symmetric] algebra_simps)
  also have "\<dots> \<le> k * u * \<bar>A\<bar> * \<bar>c\<bar>"
    using a unfolding u_def by (intro mult_right_mono) simp_all
  also have "\<dots> = t"
    by (simp add: t_def W_def abs_mult)
  finally have D: "\<bar>a * c - A * c\<bar> \<le> t" .
  have X: "W - t \<le> \<bar>a * c\<bar>" "\<bar>a * c\<bar> \<le> W + t"
    using D unfolding W_def by linarith+
  have "(2::real) powr (- 1021) = 2 * 2 powr (- 1022)"
    by (simp add: powr_minus_divide)
  then have lo: "2 powr (- 1022) \<le> \<bar>a * c\<bar>"
    using range(1) X(1) t(2) unfolding W_def [symmetric] by linarith
  have "(2::real) ^ 1023 = 2 * 2 ^ 1022"
    by simp
  then have hi: "\<bar>a * c\<bar> \<le> 2 ^ 1023"
    using range(2) X(2) t(2) W unfolding W_def [symmetric] by linarith
  obtain b where b: "rnd (a * c) = Num b" "\<bar>b - a * c\<bar> \<le> 2 powr (- 53) * \<bar>a * c\<bar>"
    using rnd_err [OF lo hi] by blast
  have "u * \<bar>a * c\<bar> \<le> u * (W + t)"
    using X(2) u(1) by (intro mult_left_mono) simp_all
  also have "\<dots> \<le> u * (2 * W)"
    using t(2) W u(1) by (intro mult_left_mono) simp_all
  finally have "u * \<bar>a * c\<bar> \<le> 2 * u * W"
    by simp
  then have "\<bar>b - A * c\<bar> \<le> 2 * u * W + t"
    using b(2) D unfolding u_def [symmetric] by linarith
  also have "\<dots> = (k + 2) * u * W"
    by (simp add: t_def algebra_simps)
  finally have "\<bar>b - A * c\<bar> \<le> (k + 2) * 2 powr (- 53) * \<bar>A * c\<bar>"
    by (simp add: u_def W_def)
  with b(1) show ?thesis
    using that by blast
qed

lemma cos_lipschitz: "\<bar>cos x - cos y\<bar> \<le> \<bar>x - y\<bar>" for x y :: real
proof -
  have "\<bar>cos x - cos y\<bar> = 2 * \<bar>sin ((x + y) / 2)\<bar> * \<bar>sin ((y - x) / 2)\<bar>"
    by (simp add: cos_diff_cos abs_mult)
  also have "\<dots> \<le> 2 * 1 * \<bar>(y - x) / 2\<bar>"
    by (intro mult_mono abs_sin_x_le_abs_x) simp_all
  finally show ?thesis
    by simp
qed

lemma cos_near_1: "1 - x\<^sup>2 / 2 \<le> cos x" for x :: real
proof -
  have "\<bar>sin (x / 2)\<bar>\<^sup>2 \<le> \<bar>x / 2\<bar>\<^sup>2"
    by (intro power_mono abs_sin_x_le_abs_x) simp
  then have "(sin (x / 2))\<^sup>2 \<le> (x / 2)\<^sup>2"
    by (simp only: power2_abs)
  moreover have "cos x = 1 - 2 * (sin (x / 2))\<^sup>2"
    using cos_double_sin [of "x / 2"] by simp
  ultimately show ?thesis
    by (simp add: power_divide)
qed

text \<open>Just below 1 the nearest double is 1.\<close>

lemma rnd_near_1:
  assumes "1 - 2 powr (- 54) < y" "y \<le> 1"
  shows "rnd y = Num 1"
proof (cases "y = 1")
  case True
  then show ?thesis by simp
next
  case False
  then have y: "y < 1"
    using assms(2) by simp
  have h: "(1::real) / 2 \<le> 1 - 2 powr (- 54)"
    by (simp add: powr_minus_divide)
  have fl: "\<lfloor>y * 2 ^ 53\<rfloor> = 2 ^ 53 - 1"
  proof (rule floor_unique)
    have "(1 - 2 powr (- 54)) * 2 ^ 53 < y * 2 ^ 53"
      using assms(1) by (intro mult_strict_right_mono) simp_all
    then show "of_int (2 ^ 53 - 1) \<le> y * 2 ^ 53"
      by (simp add: powr_minus_divide algebra_simps)
    show "y * 2 ^ 53 < of_int (2 ^ 53 - 1) + 1"
      using y by simp
  qed
  have d: "1 / 2 < y * 2 ^ 53 - (2 ^ 53 - 1)"
  proof -
    have "(1 - 2 powr (- 54)) * 2 ^ 53 < y * 2 ^ 53"
      using assms(1) by (intro mult_strict_right_mono) simp_all
    then show ?thesis
      by (simp add: powr_minus_divide algebra_simps)
  qed
  have re: "round_even (y * 2 ^ 53) = 2 ^ 53"
    unfolding round_even_def Let_def fl using d by simp
  show ?thesis
  proof (rule rnd_eval [where e = "- 1" and n = "2 ^ 53"])
    show "2 powr real_of_int (- 1) \<le> \<bar>y\<bar>"
      using assms(1) h by (simp add: powr_minus_divide)
    show "\<bar>y\<bar> < 2 powr real_of_int (- 1 + 1)"
      using y assms(1) h by simp
    show "round_even (y / 2 powr real_of_int (- 1 - 52)) = 2 ^ 53"
      using re by (simp add: powr_minus_divide)
    show "(1::real) = real_of_int (2 ^ 53) * 2 powr real_of_int (- 1 - 52)"
      by (simp add: powr_minus_divide)
  qed simp_all
qed

text \<open>The roundings met on the way through \<open>Back\<close> and \<open>Bounce\<close>.\<close>

lemma Back_sum: "Num (7286824197085463 / 4503599627370496) + Num 1 = Num (1473802978056995 / 562949953421312)"
proof -
  have "rnd (11790423824455959 / 4503599627370496) = Num (1473802978056995 / 562949953421312)"
    by (rule rnd_eval [where e = 1 and n = 5895211912227980])
      (simp_all add: powr_minus_divide round_even_def)
  then show ?thesis
    by simp
qed

lemma Back_prod_1: "Num (1473802978056995 / 562949953421312) * Num 1 = Num (1473802978056995 / 562949953421312)"
proof -
  have "rnd (1473802978056995 / 562949953421312) = Num (1473802978056995 / 562949953421312)"
    by (rule rnd_eval [where e = 1 and n = 5895211912227980])
      (simp_all add: powr_minus_divide round_even_def)
  then show ?thesis
    by simp
qed

lemma Back_diff_1: "Num (1473802978056995 / 562949953421312) - Num (7286824197085463 / 4503599627370496) = Num (4503599627370497 / 4503599627370496)"
proof -
  have "rnd (4503599627370497 / 4503599627370496) = Num (4503599627370497 / 4503599627370496)"
    by (rule rnd_eval [where e = 0 and n = 4503599627370497])
      (simp_all add: powr_minus_divide round_even_def)
  then show ?thesis
    by simp
qed

lemma Back_scale_1: "Num 1 * Num (4503599627370497 / 4503599627370496) = Num (4503599627370497 / 4503599627370496)"
proof -
  have "rnd (4503599627370497 / 4503599627370496) = Num (4503599627370497 / 4503599627370496)"
    by (rule rnd_eval [where e = 0 and n = 4503599627370497])
      (simp_all add: powr_minus_divide round_even_def)
  then show ?thesis
    by simp
qed

lemma Back_diff_0: "Num 0 - Num (7286824197085463 / 4503599627370496) = Num (- 7286824197085463 / 4503599627370496)"
proof -
  have "rnd (- 7286824197085463 / 4503599627370496) = Num (- 7286824197085463 / 4503599627370496)"
    by (rule rnd_eval [where e = 0 and n = "- 7286824197085463"])
      (simp_all add: powr_minus_divide round_even_def)
  then show ?thesis
    by simp
qed

lemma Back_left: "Num (4503599627370497 / 4503599627370496) / Num 2 = Num (4503599627370497 / 9007199254740992)"
proof -
  have "rnd (4503599627370497 / 9007199254740992) = Num (4503599627370497 / 9007199254740992)"
    by (rule rnd_eval [where e = "- 1" and n = 4503599627370497])
      (simp_all add: powr_minus_divide round_even_def)
  then show ?thesis
    by simp
qed

lemma Back_two_minus: "Num 2 - Num (4503599627370497 / 4503599627370496) = Num (4503599627370495 / 4503599627370496)"
proof -
  have "rnd (4503599627370495 / 4503599627370496) = Num (4503599627370495 / 4503599627370496)"
    by (rule rnd_eval [where e = "- 1" and n = 9007199254740990])
      (simp_all add: powr_minus_divide round_even_def)
  then show ?thesis
    by simp
qed

lemma Back_right: "Num (4503599627370495 / 4503599627370496) / Num 2 = Num (4503599627370495 / 9007199254740992)"
proof -
  have "rnd (4503599627370495 / 9007199254740992) = Num (4503599627370495 / 9007199254740992)"
    by (rule rnd_eval [where e = "- 2" and n = 9007199254740990])
      (simp_all add: powr_minus_divide round_even_def)
  then show ?thesis
    by simp
qed

lemma Bounce_c1: "Num 1 / Num 2.75 = Num (3275345183542179 / 9007199254740992)"
proof -
  have "rnd (4 / 11) = Num (3275345183542179 / 9007199254740992)"
    by (rule rnd_eval [where e = "- 2" and n = 6550690367084358])
      (simp_all add: powr_minus_divide round_even_def)
  then show ?thesis
    by simp
qed

lemma Bounce_c2: "Num 2 / Num 2.75 = Num (3275345183542179 / 4503599627370496)"
proof -
  have "rnd (8 / 11) = Num (3275345183542179 / 4503599627370496)"
    by (rule rnd_eval [where e = "- 1" and n = 6550690367084358])
      (simp_all add: powr_minus_divide round_even_def)
  then show ?thesis
    by simp
qed

lemma Bounce_c3: "Num 2.5 / Num 2.75 = Num (8188362958855447 / 9007199254740992)"
proof -
  have "rnd (10 / 11) = Num (8188362958855447 / 9007199254740992)"
    by (rule rnd_eval [where e = "- 1" and n = 8188362958855447])
      (simp_all add: powr_minus_divide round_even_def)
  then show ?thesis
    by simp
qed

lemma Bounce_c4: "Num 2.625 / Num 2.75 = Num (2149445276699555 / 2251799813685248)"
proof -
  have "rnd (21 / 22) = Num (2149445276699555 / 2251799813685248)"
    by (rule rnd_eval [where e = "- 1" and n = 8597781106798220])
      (simp_all add: powr_minus_divide round_even_def)
  then show ?thesis
    by simp
qed

lemma Bounce_p4: "Num 1 - Num (2149445276699555 / 2251799813685248) = Num (102354536985693 / 2251799813685248)"
proof -
  have "rnd (102354536985693 / 2251799813685248) = Num (102354536985693 / 2251799813685248)"
    by (rule rnd_eval [where e = "- 5" and n = 6550690367084352])
      (simp_all add: powr_minus_divide round_even_def)
  then show ?thesis
    by simp
qed

lemma Bounce_t1: "Num 7.5625 * Num (102354536985693 / 2251799813685248) = Num (3096224743817213 / 9007199254740992)"
proof -
  have "rnd (12384898975268853 / 36028797018963968) = Num (3096224743817213 / 9007199254740992)"
    by (rule rnd_eval [where e = "- 2" and n = 6192449487634426])
      (simp_all add: powr_minus_divide round_even_def)
  then show ?thesis
    by simp
qed

lemma Bounce_t2: "Num (3096224743817213 / 9007199254740992) * Num (102354536985693 / 2251799813685248) = Num (9007199254740975 / 576460752303423488)"
proof -
  have "rnd (316912650057056761835588133609 / 20282409603651670423947251286016) = Num (9007199254740975 / 576460752303423488)"
    by (rule rnd_eval [where e = "- 7" and n = 9007199254740975])
      (simp_all add: powr_minus_divide round_even_def)
  then show ?thesis
    by simp
qed

lemma Bounce_y: "Num (9007199254740975 / 576460752303423488) + Num 0.984375 = Num 1"
proof -
  have "rnd (576460752303423471 / 576460752303423488) = Num 1"
    by (rule rnd_eval [where e = "- 1" and n = 9007199254740992])
      (simp_all add: powr_minus_divide round_even_def)
  then show ?thesis
    by simp
qed

section \<open>The raw curves at the two ends\<close>

lemma Math_PI_finite:
  obtains P where "Math_PI = Num P" "\<bar>P - pi\<bar> \<le> 1 * 2 powr (- 53) * \<bar>pi\<bar>" "0 < P"
proof -
  have "(2::real) powr (- 1022) \<le> 1"
    by (simp add: powr_minus_divide)
  then have lo: "2 powr (- 1022) \<le> \<bar>pi\<bar>"
    using pi_ge_two by linarith
  have "(4::real) \<le> 2 ^ 1023"
    by simp
  then have hi: "\<bar>pi\<bar> \<le> 2 ^ 1023"
    using pi_less_4 pi_gt_zero by linarith
  obtain P where P: "rnd pi = Num P" "\<bar>P - pi\<bar> \<le> 2 powr (- 53) * \<bar>pi\<bar>"
    using rnd_err [OF lo hi] by blast
  have "(2::real) powr (- 53) * \<bar>pi\<bar> \<le> 1 / 2 * \<bar>pi\<bar>"
    by (intro mult_right_mono) (simp_all add: powr_minus_divide)
  then have "0 < P"
    using P(2) pi_ge_two by linarith
  then show ?thesis
    using P that by (simp add: Math_PI_def)
qed

lemma Pow_ends: "Pow (Num 1) NaN = Num 1" "Pow (Num 0) NaN = Num 0"
  by (simp_all add: Pow_def)

lemma PowN_ends: "PowN i [Num 1] = Num 1" "PowN i [Num 0] = Num 0"
  by (simp_all add: PowN_def Pow_def Let_def)

lemma Expo_ends: "Expo (Num 1) = Num 1" "Expo (Num 0) = Num (1 / 256)"
  by (simp_all add: Expo_def powr_minus_divide)

lemma Circ_1: "Circ (Num 1) = Num 1"
  by (simp add: Circ_def)

lemma Sine_1: "Sine (Num 1) = Num 1"
proof -
  obtain P where P: "Math_PI = Num P"
    by (rule Math_PI_finite)
  show ?thesis
    unfolding Sine_def P by simp
qed

lemma Back_1: "Back (Num 1) NaN = Num (4503599627370497 / 4503599627370496)"
  unfolding Back_def Let_def or_else_simps lit_1618
  by (simp add: Back_sum Back_prod_1 Back_diff_1 Back_scale_1 del: num_arith)

lemma Back_0: "Back (Num 0) NaN = Num 0"
  unfolding Back_def Let_def or_else_simps lit_1618 Back_sum num_mult_0 Back_diff_0
  by (simp del: num_arith)

lemma Bounce_1: "Bounce (Num 1) = Num 1"
proof -
  have p: "Num 1 - Num 1 = Num 0"
    by simp
  show ?thesis
    unfolding Bounce_def Let_def p Bounce_c1
    by simp
qed

lemma Bounce_0: "Bounce (Num 0) = Num 0"
proof -
  have p: "Num 1 - Num 0 = Num 1"
    by simp
  show ?thesis
    unfolding Bounce_def Let_def p Bounce_c1 Bounce_c2 Bounce_c3 Bounce_c4 Bounce_p4
      Bounce_t1 Bounce_t2 Bounce_y
    by simp
qed

lemma Elastic_x: "Num 300 * lit 0.3 / Num 1 = Num 90"
  unfolding lit_03 mul_300_03 by simp

text \<open>
  The argument of the cosine in \<open>Elastic\<close>, for \<open>p - 1 = c\<close>, \<open>y = 300\<close> and
  \<open>x = 90\<close>: four roundings after that of \<open>\<pi>\<close>.
\<close>

lemma Elastic_arg:
  assumes c: "1 / 2 \<le> \<bar>c\<bar>" "\<bar>c\<bar> \<le> 1"
  obtains a where "Num 2 * Math_PI * Num c * Num 300 / Num 90 = Num a"
    and "\<bar>a - 2 * pi * c * 300 / 90\<bar> \<le> 2 powr (- 45)"
proof -
  have small: "(2::real) powr (- 1021) \<le> 1"
    by (simp add: powr_minus_divide)
  have big: "(8000::real) \<le> 2 ^ 1022"
    by simp
  have ku: "1 * (2::real) powr (- 53) \<le> 1 / 2" "3 * (2::real) powr (- 53) \<le> 1 / 2"
    "5 * (2::real) powr (- 53) \<le> 1 / 2" "7 * (2::real) powr (- 53) \<le> 1 / 2"
    by (simp_all add: powr_minus_divide)
  have pc: "1 \<le> \<bar>pi * 2 * c\<bar>" "\<bar>pi * 2 * c\<bar> \<le> 8"
  proof -
    have "\<bar>pi * 2 * c\<bar> = 2 * pi * \<bar>c\<bar>"
      by (simp add: abs_mult)
    moreover have "2 * pi * (1 / 2) \<le> 2 * pi * \<bar>c\<bar>" "2 * pi * \<bar>c\<bar> \<le> 2 * pi * 1"
      using c by (intro mult_left_mono; simp)+
    ultimately show "1 \<le> \<bar>pi * 2 * c\<bar>" "\<bar>pi * 2 * c\<bar> \<le> 8"
      using pi_ge_two pi_less_4 by linarith+
  qed
  obtain P where P: "Math_PI = Num P" "\<bar>P - pi\<bar> \<le> 1 * 2 powr (- 53) * \<bar>pi\<bar>"
    by (rule Math_PI_finite)
  obtain T where T: "rnd (P * 2) = Num T"
    "\<bar>T - pi * 2\<bar> \<le> (1 + 2) * 2 powr (- 53) * \<bar>pi * 2\<bar>"
  proof (rule rnd_mult_chain [OF P(2) _ ku(1), of 2])
    show "2 powr (- 1021) \<le> \<bar>pi * 2\<bar>" "\<bar>pi * 2\<bar> \<le> 2 ^ 1022"
      using small big pi_ge_two pi_less_4 by simp_all
  qed simp_all
  obtain a1 where a1: "rnd (T * c) = Num a1"
    "\<bar>a1 - pi * 2 * c\<bar> \<le> (3 + 2) * 2 powr (- 53) * \<bar>pi * 2 * c\<bar>"
  proof (rule rnd_mult_chain [of T "pi * 2" 3 c])
    show "\<bar>T - pi * 2\<bar> \<le> 3 * 2 powr (- 53) * \<bar>pi * 2\<bar>"
      using T(2) by simp
    show "2 powr (- 1021) \<le> \<bar>pi * 2 * c\<bar>" "\<bar>pi * 2 * c\<bar> \<le> 2 ^ 1022"
      using small big pc by linarith+
  qed (simp_all add: powr_minus_divide)
  obtain a2 where a2: "rnd (a1 * 300) = Num a2"
    "\<bar>a2 - pi * 2 * c * 300\<bar> \<le> (5 + 2) * 2 powr (- 53) * \<bar>pi * 2 * c * 300\<bar>"
  proof (rule rnd_mult_chain [of a1 "pi * 2 * c" 5 300])
    show "\<bar>a1 - pi * 2 * c\<bar> \<le> 5 * 2 powr (- 53) * \<bar>pi * 2 * c\<bar>"
      using a1(2) by simp
    have "\<bar>pi * 2 * c * 300\<bar> = 300 * \<bar>pi * 2 * c\<bar>"
      by (simp add: abs_mult)
    then show "2 powr (- 1021) \<le> \<bar>pi * 2 * c * 300\<bar>" "\<bar>pi * 2 * c * 300\<bar> \<le> 2 ^ 1022"
      using small big pc by linarith+
  qed (simp_all add: powr_minus_divide)
  obtain a3 where a3: "rnd (a2 * (1 / 90)) = Num a3"
    "\<bar>a3 - pi * 2 * c * 300 * (1 / 90)\<bar>
       \<le> (7 + 2) * 2 powr (- 53) * \<bar>pi * 2 * c * 300 * (1 / 90)\<bar>"
  proof (rule rnd_mult_chain [of a2 "pi * 2 * c * 300" 7 "1 / 90"])
    show "\<bar>a2 - pi * 2 * c * 300\<bar> \<le> 7 * 2 powr (- 53) * \<bar>pi * 2 * c * 300\<bar>"
      using a2(2) by simp
    have "\<bar>pi * 2 * c * 300 * (1 / 90)\<bar> = 10 / 3 * \<bar>pi * 2 * c\<bar>"
      by (simp add: abs_mult)
    then show "2 powr (- 1021) \<le> \<bar>pi * 2 * c * 300 * (1 / 90)\<bar>"
      "\<bar>pi * 2 * c * 300 * (1 / 90)\<bar> \<le> 2 ^ 1022"
      using small big pc by linarith+
  qed (simp_all add: powr_minus_divide)
  have eq: "Num 2 * Math_PI * Num c * Num 300 / Num 90 = Num a3"
    using T(1) a1(1) a2(1) a3(1) by (simp add: P(1) mult.commute [of 2 P])
  have A: "pi * 2 * c * 300 * (1 / 90) = 2 * pi * c * 300 / 90"
    by simp
  have "\<bar>2 * pi * c * 300 / 90\<bar> = 10 / 3 * \<bar>pi * 2 * c\<bar>"
    by (simp add: abs_mult)
  then have "\<bar>2 * pi * c * 300 / 90\<bar> \<le> 27"
    using pc(2) by linarith
  then have "9 * 2 powr (- 53) * \<bar>2 * pi * c * 300 / 90\<bar> \<le> 9 * 2 powr (- 53) * 27"
    by (intro mult_left_mono) simp_all
  also have "\<dots> \<le> 2 powr (- 45)"
    by (simp add: powr_minus_divide)
  finally have "\<bar>a3 - 2 * pi * c * 300 / 90\<bar> \<le> 2 powr (- 45)"
    using a3(2) unfolding A by simp
  with eq show ?thesis
    using that by blast
qed

lemma Elastic_1: "Elastic (Num 1) NaN NaN = Num 1"
proof -
  obtain P where P: "Math_PI = Num P" "\<bar>P - pi\<bar> \<le> 1 * 2 powr (- 53) * \<bar>pi\<bar>"
    by (rule Math_PI_finite)
  obtain T where T: "rnd (P * 2) = Num T"
  proof (rule rnd_mult_chain [OF P(2), of 2])
    have "(2::real) powr (- 1021) \<le> 1" "(8::real) \<le> 2 ^ 1022"
      by (simp_all add: powr_minus_divide)
    then show "2 powr (- 1021) \<le> \<bar>pi * 2\<bar>" "\<bar>pi * 2\<bar> \<le> 2 ^ 1022"
      using pi_ge_two pi_less_4 by simp_all
  qed (simp_all add: powr_minus_divide)
  have "Num 2 * Math_PI = Num T"
    using T by (simp add: P(1) mult.commute [of 2 P])
  then show ?thesis
    unfolding Elastic_def Let_def or_else_simps Elastic_x
    by simp
qed

text \<open>
  The cosine of the computed argument is within \<open>2^-45\<close> of \<open>-1/2\<close>, its rounding within
  \<open>2^-44\<close>, and the product with an exact power of two \<open>s\<close> within \<open>s * 2^-43\<close>.
\<close>

lemma Elastic_cos:
  assumes "\<bar>a - A\<bar> \<le> 2 powr (- 45)" "cos A = - 1 / 2"
  obtains w where "Math_cos (Num a) = Num w" "\<bar>w + 1 / 2\<bar> \<le> 2 powr (- 44)"
proof -
  have u: "(2::real) powr (- 45) \<le> 1 / 4" "(2::real) powr (- 1022) \<le> 1 / 4"
    "(1::real) \<le> 2 ^ 1023" "(2::real) powr (- 45) + 2 powr (- 53) \<le> 2 powr (- 44)"
    by (simp_all add: powr_minus_divide)
  have "\<bar>cos a - cos A\<bar> \<le> \<bar>a - A\<bar>"
    by (rule cos_lipschitz)
  then have ca: "\<bar>cos a + 1 / 2\<bar> \<le> 2 powr (- 45)"
    using assms by simp
  then have r: "2 powr (- 1022) \<le> \<bar>cos a\<bar>" "\<bar>cos a\<bar> \<le> 2 ^ 1023" "\<bar>cos a\<bar> \<le> 1"
    using u by linarith+
  obtain w where w: "rnd (cos a) = Num w" "\<bar>w - cos a\<bar> \<le> 2 powr (- 53) * \<bar>cos a\<bar>"
    using rnd_err [OF r(1,2)] by blast
  have "2 powr (- 53) * \<bar>cos a\<bar> \<le> 2 powr (- 53) * 1"
    using r(3) by (intro mult_left_mono) simp_all
  then have "\<bar>w + 1 / 2\<bar> \<le> 2 powr (- 44)"
    using w(2) ca u(4) by linarith
  with w(1) show ?thesis
    using that by simp
qed

lemma Elastic_scale:
  assumes "\<bar>w + 1 / 2\<bar> \<le> 2 powr (- 44)" "s = 1 / 2 ^ k" "k \<le> 20"
  obtains v where "Num s * Num w = Num v" "\<bar>v + s / 2\<bar> \<le> s * 2 powr (- 43)"
proof -
  have s: "0 < s" "s \<le> 1" "1 / 2 ^ 20 \<le> s"
  proof -
    show "0 < s" using assms(2) by simp
    have "(1::real) \<le> 2 ^ k" by simp
    then show "s \<le> 1" using assms(2) by (simp add: divide_le_eq)
    have "(2::real) ^ k \<le> 2 ^ 20"
      using assms(3) by (intro power_increasing) simp_all
    then show "1 / 2 ^ 20 \<le> s"
      unfolding assms(2) by (intro divide_left_mono) simp_all
  qed
  have u: "(2::real) powr (- 44) \<le> 1 / 4" "(2::real) powr (- 53) + 2 powr (- 44) \<le> 2 powr (- 43)"
    by (simp_all add: powr_minus_divide)
  have w: "1 / 4 \<le> \<bar>w\<bar>" "\<bar>w\<bar> \<le> 1"
    using assms(1) u(1) by linarith+
  have sw: "\<bar>s * w\<bar> = s * \<bar>w\<bar>"
    using s(1) by (simp add: abs_mult)
  have "1 / 2 ^ 20 * (1 / 4) \<le> s * \<bar>w\<bar>"
    using s w by (intro mult_mono) simp_all
  moreover have "(2::real) powr (- 1022) \<le> 1 / 2 ^ 20 * (1 / 4)"
    by (simp add: powr_minus_divide)
  ultimately have lo: "2 powr (- 1022) \<le> \<bar>s * w\<bar>"
    unfolding sw by linarith
  have "s * \<bar>w\<bar> \<le> 1 * 1"
    using s w by (intro mult_mono) simp_all
  then have le1: "\<bar>s * w\<bar> \<le> 1"
    unfolding sw by simp
  then have hi: "\<bar>s * w\<bar> \<le> 2 ^ 1023"
    by (smt (verit) one_le_power)
  obtain v where v: "rnd (s * w) = Num v" "\<bar>v - s * w\<bar> \<le> 2 powr (- 53) * \<bar>s * w\<bar>"
    using rnd_err [OF lo hi] by blast
  have "2 powr (- 53) * \<bar>s * w\<bar> = s * (2 powr (- 53) * \<bar>w\<bar>)"
    unfolding sw by simp
  also have "\<dots> \<le> s * (2 powr (- 53) * 1)"
    using s(1) w(2) by (intro mult_left_mono) simp_all
  finally have "2 powr (- 53) * \<bar>s * w\<bar> \<le> s * 2 powr (- 53)"
    by simp
  then have e1: "\<bar>v - s * w\<bar> \<le> s * 2 powr (- 53)"
    using v(2) by linarith
  have "\<bar>s * w + s / 2\<bar> = s * \<bar>w + 1 / 2\<bar>"
  proof -
    have "s * w + s / 2 = s * (w + 1 / 2)"
      by (simp add: algebra_simps)
    then show ?thesis
      using s(1) by (simp add: abs_mult)
  qed
  also have "\<dots> \<le> s * 2 powr (- 44)"
    using s(1) assms(1) by (intro mult_left_mono) simp_all
  finally have e2: "\<bar>s * w + s / 2\<bar> \<le> s * 2 powr (- 44)" .
  have "s * 2 powr (- 53) + s * 2 powr (- 44) = s * (2 powr (- 53) + 2 powr (- 44))"
    by (simp add: algebra_simps)
  also have "\<dots> \<le> s * 2 powr (- 43)"
    using s(1) u(2) by (intro mult_left_mono) simp_all
  finally have "\<bar>v + s / 2\<bar> \<le> s * 2 powr (- 43)"
    using e1 e2 by linarith
  with v(1) show ?thesis
    using that by simp
qed

lemma cos_20_pi_3: "cos (20 * pi / 3) = - 1 / 2"
proof -
  have "20 * pi / 3 = 2 * pi / 3 + 2 * pi + 2 * pi + 2 * pi"
    by simp
  then have "cos (20 * pi / 3) = cos (2 * pi / 3 + 2 * pi + 2 * pi + 2 * pi)"
    by simp
  also have "\<dots> = cos (2 * pi / 3)"
    by (simp only: cos_periodic)
  finally show ?thesis
    by (simp add: cos_120)
qed

lemma cos_10_pi_3: "cos (10 * pi / 3) = - 1 / 2"
proof -
  have "10 * pi / 3 = 2 * pi - 2 * pi / 3 + 2 * pi"
    by simp
  then have "cos (10 * pi / 3) = cos (2 * pi - 2 * pi / 3 + 2 * pi)"
    by simp
  also have "\<dots> = cos (2 * pi / 3)"
    by (simp only: cos_periodic cos_2pi_minus)
  finally show ?thesis
    by (simp add: cos_120)
qed

text \<open>\<open>Elastic(0)\<close> is \<open>-2^-11\<close> up to \<open>2^-53\<close>, and \<open>Elastic(0.5, 0)\<close> is \<open>-2^-6\<close> up to \<open>2^-48\<close>.\<close>

lemma Elastic_0: "near (Elastic (Num 0) NaN NaN) (- 1 / 2048) (2 powr (- 53))"
proof -
  obtain a where a: "Num 2 * Math_PI * Num (- 1) * Num 300 / Num 90 = Num a"
    "\<bar>a - 2 * pi * (- 1) * 300 / 90\<bar> \<le> 2 powr (- 45)"
    by (rule Elastic_arg [of "- 1"]) simp_all
  have "cos (2 * pi * (- 1) * 300 / 90) = - 1 / 2"
    using cos_20_pi_3 by simp
  then obtain w where w: "Math_cos (Num a) = Num w" "\<bar>w + 1 / 2\<bar> \<le> 2 powr (- 44)"
    using Elastic_cos [OF a(2)] by blast
  obtain v where v: "Num (1 / 1024) * Num w = Num v"
    "\<bar>v + 1 / 1024 / 2\<bar> \<le> 1 / 1024 * 2 powr (- 43)"
    by (rule Elastic_scale [OF w(2), of "1 / 1024" 10]) simp_all
  have p: "Num 0 - Num 1 = Num (- 1)" "Math_pow (Num 2) (Num 10 * Num (- 1)) = Num (1 / 1024)"
    by (simp_all add: powr_minus_divide)
  have "Elastic (Num 0) NaN NaN = Num v"
    unfolding Elastic_def Let_def or_else_simps Elastic_x p a(1) w(1) v(1) ..
  moreover have "\<bar>v - (- 1 / 2048)\<bar> \<le> 2 powr (- 53)"
    using v(2) by (simp add: powr_minus_divide)
  ultimately show ?thesis
    by simp
qed

lemma Elastic_half: "near (Elastic (Num 0.5) (Num 0) NaN) (- 1 / 64) (2 powr (- 48))"
proof -
  obtain a where a: "Num 2 * Math_PI * Num (- 1 / 2) * Num 300 / Num 90 = Num a"
    "\<bar>a - 2 * pi * (- 1 / 2) * 300 / 90\<bar> \<le> 2 powr (- 45)"
    by (rule Elastic_arg [of "- 1 / 2"]) simp_all
  have "cos (2 * pi * (- 1 / 2) * 300 / 90) = - 1 / 2"
    using cos_10_pi_3 by simp
  then obtain w where w: "Math_cos (Num a) = Num w" "\<bar>w + 1 / 2\<bar> \<le> 2 powr (- 44)"
    using Elastic_cos [OF a(2)] by blast
  obtain v where v: "Num (1 / 32) * Num w = Num v"
    "\<bar>v + 1 / 32 / 2\<bar> \<le> 1 / 32 * 2 powr (- 43)"
    by (rule Elastic_scale [OF w(2), of "1 / 32" 5]) simp_all
  have p: "Num 0.5 - Num 1 = Num (- 1 / 2)"
    "Math_pow (Num 2) (Num 10 * Num (- 1 / 2)) = Num (1 / 32)"
    by (simp_all add: powr_minus_divide)
  have "Elastic (Num 0.5) (Num 0) NaN = Num v"
    unfolding Elastic_def Let_def or_else_simps Elastic_x p a(1) w(1) v(1) ..
  moreover have "\<bar>v - (- 1 / 64)\<bar> \<le> 2 powr (- 48)"
    using v(2) by (simp add: powr_minus_divide)
  ultimately show ?thesis
    by simp
qed

text \<open>
  \<open>Circ(0)\<close> and \<open>Sine(0)\<close>: the sine is taken at a double within \<open>2^-49\<close> of
  \<open>\<pi>/2\<close>, where it is so close to 1 that it rounds to 1.
\<close>

lemma sin_rounds_to_1:
  assumes "\<bar>a - pi / 2\<bar> \<le> 2 powr (- 49)"
  shows "Math_sin (Num a) = Num 1"
proof -
  define d where "d = pi / 2 - a"
  have d: "\<bar>d\<bar> \<le> 2 powr (- 49)"
    using assms by (simp add: d_def abs_minus_commute)
  have "sin a = cos d"
    by (simp add: d_def cos_sin_eq [of "pi / 2 - a"])
  moreover have "1 - d\<^sup>2 / 2 \<le> cos d"
    by (rule cos_near_1)
  moreover have "d\<^sup>2 \<le> (2 powr (- 49))\<^sup>2"
  proof -
    have "\<bar>d\<bar>\<^sup>2 \<le> (2 powr (- 49))\<^sup>2"
      using d by (intro power_mono) simp_all
    then show ?thesis
      by (simp only: power2_abs)
  qed
  moreover have "((2::real) powr (- 49))\<^sup>2 / 2 < 2 powr (- 54)"
    by (simp add: powr_minus_divide power2_eq_square)
  ultimately have "1 - 2 powr (- 54) < sin a"
    by linarith
  then have "rnd (sin a) = Num 1"
    by (rule rnd_near_1) simp
  then show ?thesis
    by simp
qed

lemma Circ_0: "Circ (Num 0) = Num 0"
proof -
  have r: "2 powr (- 1022) \<le> \<bar>pi / 2\<bar>" "\<bar>pi / 2\<bar> \<le> 2 ^ 1023"
  proof -
    have "(2::real) powr (- 1022) \<le> 1" "(2::real) \<le> 2 ^ 1023"
      by (simp_all add: powr_minus_divide)
    then show "2 powr (- 1022) \<le> \<bar>pi / 2\<bar>" "\<bar>pi / 2\<bar> \<le> 2 ^ 1023"
      using pi_ge_two pi_less_4 by simp_all
  qed
  obtain a where a: "rnd (pi / 2) = Num a" "\<bar>a - pi / 2\<bar> \<le> 2 powr (- 53) * \<bar>pi / 2\<bar>"
    using rnd_err [OF r] by blast
  have "2 powr (- 53) * \<bar>pi / 2\<bar> \<le> 2 powr (- 53) * 2"
    using pi_less_4 by (intro mult_left_mono) simp_all
  also have "\<dots> \<le> 2 powr (- 49)"
    by (simp add: powr_minus_divide)
  finally have "\<bar>a - pi / 2\<bar> \<le> 2 powr (- 49)"
    using a(2) by simp
  then have s: "Math_sin (Num a) = Num 1"
    by (rule sin_rounds_to_1)
  have ac: "Math_acos (Num 0) = Num a"
    using a(1) by simp
  show ?thesis
    unfolding Circ_def ac s by simp
qed

lemma Sine_0: "Sine (Num 0) = Num 0"
proof -
  have small: "(2::real) powr (- 1021) \<le> 1"
    by (simp add: powr_minus_divide)
  have big: "(8::real) \<le> 2 ^ 1022"
    by simp
  obtain P where P: "Math_PI = Num P" "\<bar>P - pi\<bar> \<le> 1 * 2 powr (- 53) * \<bar>pi\<bar>"
    by (rule Math_PI_finite)
  obtain a1 where a1: "rnd (P * 1) = Num a1"
    "\<bar>a1 - pi * 1\<bar> \<le> (1 + 2) * 2 powr (- 53) * \<bar>pi * 1\<bar>"
  proof (rule rnd_mult_chain [OF P(2), of 1])
    show "2 powr (- 1021) \<le> \<bar>pi * 1\<bar>" "\<bar>pi * 1\<bar> \<le> 2 ^ 1022"
      using small big pi_ge_two pi_less_4 by simp_all
  qed (simp_all add: powr_minus_divide)
  obtain a2 where a2: "rnd (a1 * (1 / 2)) = Num a2"
    "\<bar>a2 - pi * (1 / 2)\<bar> \<le> (3 + 2) * 2 powr (- 53) * \<bar>pi * (1 / 2)\<bar>"
  proof (rule rnd_mult_chain [of a1 pi 3 "1 / 2"])
    show "\<bar>a1 - pi\<bar> \<le> 3 * 2 powr (- 53) * \<bar>pi\<bar>"
      using a1(2) by simp
    show "2 powr (- 1021) \<le> \<bar>pi * (1 / 2)\<bar>" "\<bar>pi * (1 / 2)\<bar> \<le> 2 ^ 1022"
      using small big pi_ge_two pi_less_4 by simp_all
  qed (simp_all add: powr_minus_divide)
  have "5 * 2 powr (- 53) * \<bar>pi * (1 / 2)\<bar> \<le> 5 * 2 powr (- 53) * 2"
    using pi_less_4 by (intro mult_left_mono) simp_all
  also have "\<dots> \<le> 2 powr (- 49)"
    by (simp add: powr_minus_divide)
  finally have "\<bar>a2 - pi / 2\<bar> \<le> 2 powr (- 49)"
    using a2(2) by simp
  then have s: "Math_sin (Num a2) = Num 1"
    by (rule sin_rounds_to_1)
  have ar: "(Num 1 - Num 0) * Math_PI / Num 2 = Num a2"
    using a1(1) a2(1) by (simp add: P(1))
  show ?thesis
    unfolding Sine_def ar s by simp
qed

section \<open>The registry in closed form\<close>

lemma lower_names:
  "toLowerCase ''Pow'' = ''pow''" "toLowerCase ''Expo'' = ''expo''"
  "toLowerCase ''Circ'' = ''circ''" "toLowerCase ''Sine'' = ''sine''"
  "toLowerCase ''Back'' = ''back''" "toLowerCase ''Bounce'' = ''bounce''"
  "toLowerCase ''Elastic'' = ''elastic''" "toLowerCase ''Quad'' = ''quad''"
  "toLowerCase ''Cubic'' = ''cubic''" "toLowerCase ''Quart'' = ''quart''"
  "toLowerCase ''Quint'' = ''quint''"
  by (simp_all add: toLowerCase_def lower_char_def)

lemma extend_one_family:
  "test_upper type \<Longrightarrow> extend_one (type, f) reg =
     reg(toLowerCase type @ ''In'' \<mapsto> Curve (easeIn (eases_of f)),
         toLowerCase type @ ''Out'' \<mapsto> Curve (easeOut (eases_of f)),
         toLowerCase type @ ''InOut'' \<mapsto> Curve (easeInOut (eases_of f)),
         type \<mapsto> Family (eases_of f))"
  by (simp add: CreateTransitionEases_def eases_of_def Let_def)

lemma upt_4: "[0 ..< 4] = [0, 1, 2, 3::nat]"
  by (simp add: upt_rec)

lemma Fx_Transitions_eq: "Fx_Transitions = map_of Fx_Transitions_table"
  unfolding Fx_Transitions_table_def
  by (simp add: Fx_Transitions_def Fx_Transitions_extended_def Fx_Transitions_extend_def
      Fx_Transitions_Abstract_def upt_4 extend_one_family lower_names
      del: extend_one.simps)

text \<open>The eleven families, and no other entry of the registry is a family.\<close>

lemma family_disj:
  assumes "Fx_Transitions N = Some (Family fam)"
  shows "N = ''Quint'' \<and> fam = eases_of (PowN 3) \<or>
     N = ''Quart'' \<and> fam = eases_of (PowN 2) \<or>
     N = ''Cubic'' \<and> fam = eases_of (PowN 1) \<or>
     N = ''Quad'' \<and> fam = eases_of (PowN 0) \<or>
     N = ''Elastic'' \<and> fam = eases_of (fn3 Elastic) \<or>
     N = ''Bounce'' \<and> fam = eases_of (fn1 Bounce) \<or>
     N = ''Back'' \<and> fam = eases_of (fn2 Back) \<or>
     N = ''Sine'' \<and> fam = eases_of (fn1 Sine) \<or>
     N = ''Circ'' \<and> fam = eases_of (fn1 Circ) \<or>
     N = ''Expo'' \<and> fam = eases_of (fn1 Expo) \<or>
     N = ''Pow'' \<and> fam = eases_of (fn2 Pow)"
proof -
  have "(N, Family fam) \<in> set Fx_Transitions_table"
    using assms unfolding Fx_Transitions_eq by (rule map_of_SomeD)
  then show ?thesis
    unfolding Fx_Transitions_table_def by simp
qed

lemma family_lookup:
  "Fx_Transitions ''Pow'' = Some (Family (eases_of (fn2 Pow)))"
  "Fx_Transitions ''Expo'' = Some (Family (eases_of (fn1 Expo)))"
  "Fx_Transitions ''Circ'' = Some (Family (eases_of (fn1 Circ)))"
  "Fx_Transitions ''Sine'' = Some (Family (eases_of (fn1 Sine)))"
  "Fx_Transitions ''Back'' = Some (Family (eases_of (fn2 Back)))"
  "Fx_Transitions ''Bounce'' = Some (Family (eases_of (fn1 Bounce)))"
  "Fx_Transitions ''Elastic'' = Some (Family (eases_of (fn3 Elastic)))"
  "Fx_Transitions ''Quad'' = Some (Family (eases_of (PowN 0)))"
  "Fx_Transitions ''Cubic'' = Some (Family (eases_of (PowN 1)))"
  "Fx_Transitions ''Quart'' = Some (Family (eases_of (PowN 2)))"
  "Fx_Transitions ''Quint'' = Some (Family (eases_of (PowN 3)))"
  unfolding Fx_Transitions_eq Fx_Transitions_table_def by simp_all

lemma linear_lookup:
  "Fx_Transitions ''linear'' = Some (Curve \<lparr>call = fn3 linear, set_prop = None\<rparr>)"
  unfolding Fx_Transitions_eq Fx_Transitions_table_def by simp

lemma eases_of_simps [simp]:
  "raw (eases_of f) = f"
  "call (easeIn (eases_of f)) = easeIn_fn f"
  "call (easeOut (eases_of f)) = easeOut_fn f"
  "call (easeInOut (eases_of f)) = easeInOut_fn f"
  "set_prop (easeIn (eases_of f)) = Some (SetTransitionValues (easeIn_fn f))"
  "set_prop (easeOut (eases_of f)) = Some (SetTransitionValues (easeOut_fn f))"
  "set_prop (easeInOut (eases_of f)) = Some (SetTransitionValues (easeInOut_fn f))"
  by (simp_all add: eases_of_def with_set_def)

lemma family_is_eases:
  assumes "Fx_Transitions N = Some (Family fam)"
  shows "fam = eases_of (raw fam)"
  using family_disj [OF assms] by (elim disjE conjE) simp_all

section \<open>Facts about the registered families\<close>

text \<open>
  The raw functions of the registry read their parameters by position and read at most
  three of them, so the four-argument call that an ease makes is the call on the
  caller's own argument list.
\<close>

lemma raw_positional:
  assumes "Fx_Transitions N = Some (Family fam)"
  shows "raw fam [a, arg 0 params, arg 1 params, arg 2 params] = raw fam (a # params)"
  using family_disj [OF assms]
  by (elim disjE conjE) (simp_all add: fn1_def fn2_def fn3_def PowN_def)

lemma raw_at_1:
  assumes "Fx_Transitions N = Some (Family fam)" "N \<noteq> ''Back''"
  shows "raw fam [Num 1] = Num 1"
  using family_disj [OF assms(1)] assms(2)
  by (elim disjE conjE)
    (simp_all add: fn1_def fn2_def fn3_def PowN_ends Pow_ends Expo_ends Circ_1 Sine_1
      Bounce_1 Elastic_1 del: num_arith)

lemma raw_Back_1:
  assumes "Fx_Transitions ''Back'' = Some (Family fam)"
  shows "raw fam [Num 1] = Num (4503599627370497 / 4503599627370496)"
proof -
  have "fam = eases_of (fn2 Back)"
    using assms by (simp add: family_lookup)
  then show ?thesis
    by (simp add: fn2_def Back_1)
qed

lemma raw_at_0:
  assumes "Fx_Transitions N = Some (Family fam)" "N \<noteq> ''Expo''" "N \<noteq> ''Elastic''"
  shows "raw fam [Num 0] = Num 0"
  using family_disj [OF assms(1)] assms(2,3)
  by (elim disjE conjE)
    (simp_all add: fn1_def fn2_def fn3_def PowN_ends Pow_ends Circ_0 Sine_0
      Back_0 Bounce_0 del: num_arith)

lemma easeIn_single:
  assumes "Fx_Transitions N = Some (Family fam)"
  shows "call (easeIn fam) [p] = raw fam [p]"
proof -
  have "raw fam [p, arg 0 [], arg 1 [], arg 2 []] = raw fam [p]"
    using assms by (rule raw_positional)
  moreover have "call (easeIn fam) [p] = raw fam [p, NaN, NaN, NaN]"
    using family_is_eases [OF assms] eases_of_simps(2) [of "raw fam"]
    by (simp add: easeIn_fn_def)
  ultimately show ?thesis
    by simp
qed

lemma easeOut_fn_complement:
  "easeOut_fn transition (p # params) = Num 1 - easeIn_fn transition ((Num 1 - p) # params)"
  by (simp add: easeOut_fn_def easeIn_fn_def)

lemma easeInOut_fn_cons:
  "easeInOut_fn transition (p # params) =
     (if p \<le> Num 0.5
      then transition [Num 2 * p, arg 0 params, arg 1 params, arg 2 params] / Num 2
      else (Num 2 - transition [Num 2 * (Num 1 - p), arg 0 params, arg 1 params, arg 2 params])
             / Num 2)"
  by (simp add: easeInOut_fn_def)

lemma easeInOut_fn_branches:
  "easeInOut_fn transition arguments =
     (if arg 0 arguments \<le> Num 0.5 then easeInOut_left transition arguments
      else easeInOut_right transition arguments)"
  by (simp add: easeInOut_fn_def easeInOut_left_def easeInOut_right_def Let_def)

lemma branches_at_half:
  assumes "Fx_Transitions N = Some (Family fam)"
  shows "easeInOut_left (raw fam) [Num 0.5] = raw fam [Num 1] / Num 2"
    and "easeInOut_right (raw fam) [Num 0.5] = (Num 2 - raw fam [Num 1]) / Num 2"
proof -
  have pos: "raw fam [Num 1, arg 0 [], arg 1 [], arg 2 []] = raw fam [Num 1]"
    using assms by (rule raw_positional)
  have h: "Num 2 * Num 0.5 = Num 1" "Num 1 - Num 0.5 = Num 0.5"
    by simp_all
  show "easeInOut_left (raw fam) [Num 0.5] = raw fam [Num 1] / Num 2"
    unfolding easeInOut_left_def Let_def arg_simps arg_numeral h
    using pos by simp
  show "easeInOut_right (raw fam) [Num 0.5] = (Num 2 - raw fam [Num 1]) / Num 2"
    unfolding easeInOut_right_def Let_def arg_simps arg_numeral h
    using pos by simp
qed

lemma alias_lookup:
  assumes "Fx_Transitions N = Some (Family fam)"
  shows "Fx_Transitions (toLowerCase N @ ''In'') = Some (Curve (easeIn fam))"
    and "Fx_Transitions (toLowerCase N @ ''Out'') = Some (Curve (easeOut fam))"
    and "Fx_Transitions (toLowerCase N @ ''InOut'') = Some (Curve (easeInOut fam))"
  using family_disj [OF assms]
  by (elim disjE conjE; simp add: lower_names Fx_Transitions_eq Fx_Transitions_table_def)+

lemma linear_unit: "is_double p \<Longrightarrow> linear p (Num 1) (Num 1) = p"
  by (cases p) (simp_all add: linear_def times_number_def divide_number_def inf_of_sign_def)

section \<open>The store only grows\<close>

lemma in_store_mono: "in_store f h \<Longrightarrow> prefix h h' \<Longrightarrow> in_store f h'"
proof (induction f)
  case (Native g)
  then show ?case by simp
next
  case (Bound t a)
  then have "length h \<le> length h'"
    by (simp add: prefix_length_le)
  with Bound show ?case by simp
qed

lemma read_array_prefix:
  "a < length h \<Longrightarrow> prefix h h' \<Longrightarrow> read_array h' a = Some (h ! a)"
  by (auto simp add: read_array_def prefix_def nth_append)

lemma read_array_new: "read_array (h @ [xs]) (length h) = Some xs"
  by (simp add: read_array_def)

text \<open>
  The step of an inner closure, with the two allocations carried out: the store gets
  the copy of the arguments and the concatenation at its end and \<open>transition\<close> is called
  on the concatenation.
\<close>

lemma call_closure_Bound:
  assumes "a < length h"
  shows "call_closure (Bound t a) arguments h
    = call_closure t (arguments @ h ! a) (h @ [arguments, arguments @ h ! a])"
proof -
  have "read_array (h @ [arguments]) a = Some (h ! a)"
    using assms by (simp add: read_array_prefix)
  moreover have "read_array ((h @ [arguments]) @ [arguments @ h ! a]) (length (h @ [arguments]))
      = Some (arguments @ h ! a)"
    by (rule read_array_new)
  ultimately show ?thesis
    by (simp add: alloc_def read_array_new)
qed

declare call_closure.simps(2) [simp del]

lemma call_closure_total:
  "in_store f h \<Longrightarrow> \<exists>v h'. call_closure f arguments h = Some (v, h') \<and> prefix h h'"
proof (induction f arbitrary: arguments h)
  case (Native g)
  then show ?case by simp
next
  case (Bound t a)
  let ?h = "h @ [arguments, arguments @ h ! a]"
  have a: "a < length h" and t: "in_store t h"
    using Bound.prems by simp_all
  have "in_store t ?h"
    using t by (rule in_store_mono) simp
  then obtain v h' where r: "call_closure t (arguments @ h ! a) ?h = Some (v, h')" "prefix ?h h'"
    using Bound.IH by blast
  have "prefix h ?h"
    by simp
  then have "prefix h h'"
    using r(2) by (rule prefix_order.trans)
  then show ?case
    using r(1) by (simp add: call_closure_Bound [OF a])
qed

text \<open>
  What a function value returns does not depend on what was allocated after the arrays
  it refers to.
\<close>

lemma result_stable:
  "in_store f h \<Longrightarrow> prefix h h' \<Longrightarrow>
     result (call_closure f arguments h') = result (call_closure f arguments h)"
proof (induction f arbitrary: arguments h h')
  case (Native g)
  then show ?case by (simp add: result_def)
next
  case (Bound t a)
  have a: "a < length h" and t: "in_store t h"
    using Bound.prems(1) by simp_all
  have a': "a < length h'"
    using a Bound.prems(2) by (meson less_le_trans prefix_length_le)
  have same: "h' ! a = h ! a"
    using a Bound.prems(2) by (auto simp add: prefix_def nth_append)
  let ?zs = "arguments @ h ! a"
  have p1: "prefix h (h @ [arguments, ?zs])"
    by simp
  have p2: "prefix h (h' @ [arguments, ?zs])"
    using Bound.prems(2) by (simp add: prefix_prefix)
  have "result (call_closure t ?zs (h' @ [arguments, ?zs])) = result (call_closure t ?zs h)"
    using t p2 by (rule Bound.IH)
  moreover have "result (call_closure t ?zs (h @ [arguments, ?zs])) = result (call_closure t ?zs h)"
    using t p1 by (rule Bound.IH)
  ultimately show ?case
    by (simp add: call_closure_Bound [OF a] call_closure_Bound [OF a'] same)
qed

lemma result_Bound:
  assumes "a < length h" "in_store t h"
  shows "result (call_closure (Bound t a) arguments h)
    = result (call_closure t (arguments @ h ! a) h)"
proof -
  have "prefix h (h @ [arguments, arguments @ h ! a])"
    by simp
  with assms(2) have "result (call_closure t (arguments @ h ! a) (h @ [arguments, arguments @ h ! a]))
      = result (call_closure t (arguments @ h ! a) h)"
    by (rule result_stable)
  then show ?thesis
    by (simp add: call_closure_Bound [OF assms(1)])
qed

lemma bind_eq: "bind t arguments h = (Bound t (length h), h @ [arguments])"
  by (simp add: bind_def alloc_def)

section \<open>The endpoint law\<close>

text \<open>
  \<open>Fx.Transitions.Expo.easeIn(0)\<close> is \<open>Math.pow(2, -8)\<close>, that is 1/256 and not 0: the
  endpoint law of claim C1 fails for Expo at \<open>p = 0\<close>.
\<close>

theorem Expo_easeIn_0_counterexample:
  "invoke_ease Fx_Transitions ''Expo'' easeIn [Num 0] = Some (Num (1 / 256))
   \<and> invoke_ease Fx_Transitions ''Expo'' easeIn [Num 0] \<noteq> Some (Num 0)"
  by (simp add: invoke_ease_def family_lookup easeIn_fn_def fn1_def Expo_ends del: num_arith)

text \<open>
  Claim C1, as the code has it in double arithmetic, each family called with the progress
  alone. At \<open>p = 1\<close> the \<open>easeIn\<close> is exactly 1 for every registered family other than
  Back and is \<open>1 + 2^-52\<close> for Back, so it is 1 up to rounding for all. At \<open>p = 0\<close> it
  is exactly 0 for every family other than Expo and Elastic; Expo gives \<open>2^-8\<close> and
  Elastic gives \<open>-2^-11\<close> up to rounding (within \<open>2^-53\<close>).
\<close>

theorem easeIn_endpoints:
  assumes "Fx_Transitions N = Some (Family fam)"
  shows "(N \<noteq> ''Back'' \<longrightarrow> call (easeIn fam) [Num 1] = Num 1)
    \<and> (N = ''Back'' \<longrightarrow> call (easeIn fam) [Num 1] = Num (1 + 1 / 2 ^ 52))
    \<and> near (call (easeIn fam) [Num 1]) 1 (1 / 2 ^ 52)
    \<and> (N \<noteq> ''Expo'' \<and> N \<noteq> ''Elastic'' \<longrightarrow> call (easeIn fam) [Num 0] = Num 0)
    \<and> (N = ''Expo'' \<longrightarrow> call (easeIn fam) [Num 0] = Num (1 / 256))
    \<and> (N = ''Elastic'' \<longrightarrow> near (call (easeIn fam) [Num 0]) (- 1 / 2048) (1 / 2 ^ 53))"
proof -
  have one: "call (easeIn fam) [Num 1] = Num 1" if "N \<noteq> ''Back''"
    using assms that by (simp add: easeIn_single raw_at_1)
  have bk: "call (easeIn fam) [Num 1] = Num (1 + 1 / 2 ^ 52)" if "N = ''Back''"
    using assms that by (simp add: easeIn_single raw_Back_1)
  have near1: "near (call (easeIn fam) [Num 1]) 1 (1 / 2 ^ 52)"
  proof (cases "N = ''Back''")
    case True
    then show ?thesis by (simp add: bk)
  next
    case False
    then show ?thesis by (simp add: one)
  qed
  have zero: "call (easeIn fam) [Num 0] = Num 0" if "N \<noteq> ''Expo''" "N \<noteq> ''Elastic''"
    using assms that by (simp add: easeIn_single raw_at_0)
  have expo: "call (easeIn fam) [Num 0] = Num (1 / 256)" if "N = ''Expo''"
  proof -
    have "fam = eases_of (fn1 Expo)"
      using assms that by (simp add: family_lookup)
    then show ?thesis
      by (simp add: easeIn_fn_def fn1_def Expo_ends del: num_arith)
  qed
  have elastic: "near (call (easeIn fam) [Num 0]) (- 1 / 2048) (1 / 2 ^ 53)" if "N = ''Elastic''"
  proof -
    have "fam = eases_of (fn3 Elastic)"
      using assms that by (simp add: family_lookup)
    then have c: "call (easeIn fam) [Num 0] = Elastic (Num 0) NaN NaN"
      by (simp add: easeIn_fn_def fn3_def)
    have e: "(2::real) powr (- 53) = 1 / 2 ^ 53"
      by (simp add: powr_minus_divide)
    show ?thesis
      unfolding c using Elastic_0 unfolding e .
  qed
  from one bk near1 zero expo elastic show ?thesis
    by blast
qed

theorem easeIn_endpoints_witness:
  "Fx_Transitions ''Bounce'' = Some (Family (eases_of (fn1 Bounce)))
   \<and> call (easeIn (eases_of (fn1 Bounce))) [Num 1] = Num 1
   \<and> call (easeIn (eases_of (fn1 Bounce))) [Num 0] = Num 0
   \<and> Fx_Transitions ''Back'' = Some (Family (eases_of (fn2 Back)))
   \<and> call (easeIn (eases_of (fn2 Back))) [Num 1] = Num (1 + 1 / 2 ^ 52)
   \<and> call (easeIn (eases_of (fn2 Back))) [Num 0] = Num 0
   \<and> Fx_Transitions ''Elastic'' = Some (Family (eases_of (fn3 Elastic)))
   \<and> call (easeIn (eases_of (fn3 Elastic))) [Num 1] = Num 1
   \<and> near (call (easeIn (eases_of (fn3 Elastic))) [Num 0]) (- 1 / 2048) (1 / 2 ^ 53)"
  using easeIn_endpoints [of "''Bounce''" "eases_of (fn1 Bounce)"]
    easeIn_endpoints [of "''Back''" "eases_of (fn2 Back)"]
    easeIn_endpoints [of "''Elastic''" "eases_of (fn3 Elastic)"]
  by (simp add: family_lookup)

section \<open>Elastic with a zero amplitude\<close>

text \<open>
  \<open>Fx.Transitions.Elastic(0.5, 0)\<close>: the divisor \<open>x || 1\<close> is 1, the local \<open>x\<close> is 90, and
  the result is the finite number \<open>2^-5 * cos(-10\<pi>/3) = -1/64\<close> up to rounding. No
  division by zero takes place and no failure reaches the caller, against claim C2.
\<close>

theorem Elastic_zero_amplitude_counterexample:
  "invoke Fx_Transitions ''Elastic'' [Num 0.5, Num 0] = Some (Elastic (Num 0.5) (Num 0) NaN)
   \<and> near (Elastic (Num 0.5) (Num 0) NaN) (- 1 / 64) (1 / 2 ^ 48)
   \<and> or_else (Num 0) (Num 1) = Num 1"
proof -
  have e: "(2::real) powr (- 48) = 1 / 2 ^ 48"
    by (simp add: powr_minus_divide)
  have "near (Elastic (Num 0.5) (Num 0) NaN) (- 1 / 64) (1 / 2 ^ 48)"
    using Elastic_half unfolding e .
  then show ?thesis
    by (simp add: invoke_def family_lookup fn3_def del: num_arith)
qed

text \<open>
  Claim C2, as the code has it: an amplitude of 0 is falsy, so the divisor \<open>x || 1\<close> is 1
  and the amplitude causes no division by zero: for every \<open>p\<close> and \<open>y\<close>,
  \<open>Elastic(p, 0, y)\<close> returns what \<open>Elastic(p, 1, y)\<close> returns.
\<close>

theorem Elastic_zero_amplitude:
  "or_else (Num 0) (Num 1) = Num 1
   \<and> Elastic p (Num 0) y = Elastic p (Num 1) y
   \<and> invoke Fx_Transitions ''Elastic'' [p, Num 0, y]
       = invoke Fx_Transitions ''Elastic'' [p, Num 1, y]"
  by (simp add: invoke_def family_lookup fn3_def Elastic_def)

theorem Elastic_zero_amplitude_witness:
  "Elastic (Num 1) (Num 0) NaN = Elastic (Num 1) (Num 1) NaN
   \<and> invoke Fx_Transitions ''Elastic'' [Num 1, Num 0, NaN] = Some (Num 1)"
proof -
  have "Elastic (Num 1) (Num 0) NaN = Elastic (Num 1) NaN NaN"
    by (simp add: Elastic_def)
  then have "invoke Fx_Transitions ''Elastic'' [Num 1, Num 0, NaN] = Some (Num 1)"
    by (simp add: invoke_def family_lookup fn3_def Elastic_1 del: num_arith)
  then show ?thesis
    using Elastic_zero_amplitude [of "Num 1" NaN] by simp
qed

section \<open>The three eases\<close>

text \<open>
  Claim C3, the complement law: for every registered family, every progress \<open>p\<close> and
  every list of further arguments, \<open>easeOut(p, ...)\<close> is \<open>1 - easeIn(1 - p, ...)\<close>.
\<close>

theorem easeOut_complement:
  assumes "Fx_Transitions N = Some (Family fam)"
  shows "call (easeOut fam) (p # params) = Num 1 - call (easeIn fam) ((Num 1 - p) # params)"
proof -
  have "fam = eases_of (raw fam)"
    using assms by (rule family_is_eases)
  then have "call (easeOut fam) = easeOut_fn (raw fam)" "call (easeIn fam) = easeIn_fn (raw fam)"
    using eases_of_simps(2,3) [of "raw fam"] by simp_all
  then show ?thesis
    by (simp add: easeOut_fn_complement)
qed

theorem easeOut_complement_witness:
  "Fx_Transitions ''Back'' = Some (Family (eases_of (fn2 Back)))
   \<and> call (easeOut (eases_of (fn2 Back))) [Num 0.5, Num 2]
     = Num 1 - call (easeIn (eases_of (fn2 Back))) [Num 1 - Num 0.5, Num 2]
   \<and> call (easeOut (eases_of (fn2 Back))) [Num 0.5, Num 2] = Num 1.125"
  using easeOut_complement [of "''Back''" "eases_of (fn2 Back)" "Num 0.5" "[Num 2]"]
  by (simp add: family_lookup easeIn_fn_def fn2_def Back_def power2_eq_square)

text \<open>
  Claim C4: for every registered family with raw curve \<open>raw\<close>, every \<open>p\<close> and every list
  of further arguments, \<open>easeInOut(p, ...)\<close> is \<open>raw(2p, ...) / 2\<close> when \<open>p <= 0.5\<close> and
  \<open>(2 - raw(2(1 - p), ...)) / 2\<close> when \<open>p > 0.5\<close>.
\<close>

theorem easeInOut_split:
  assumes "Fx_Transitions N = Some (Family fam)"
  shows "(p \<le> Num 0.5 \<longrightarrow>
            call (easeInOut fam) (p # params) = raw fam ((Num 2 * p) # params) / Num 2)
       \<and> (Num 0.5 < p \<longrightarrow>
            call (easeInOut fam) (p # params)
              = (Num 2 - raw fam ((Num 2 * (Num 1 - p)) # params)) / Num 2)"
proof -
  have "fam = eases_of (raw fam)"
    using assms by (rule family_is_eases)
  then have io: "call (easeInOut fam) = easeInOut_fn (raw fam)"
    using eases_of_simps(4) [of "raw fam"] by simp
  have pos: "raw fam [a, arg 0 params, arg 1 params, arg 2 params] = raw fam (a # params)" for a
    using assms by (rule raw_positional)
  have gt: "\<not> p \<le> Num 0.5" if "Num 0.5 < p"
    using that by (cases p) (simp_all add: less_number_def less_eq_number_def)
  show ?thesis
    unfolding io easeInOut_fn_cons pos using gt by simp
qed

theorem easeInOut_split_witness:
  "Fx_Transitions ''Pow'' = Some (Family (eases_of (fn2 Pow)))
   \<and> Num 0.25 \<le> Num 0.5
   \<and> call (easeInOut (eases_of (fn2 Pow))) [Num 0.25, Num 3]
       = fn2 Pow [Num 2 * Num 0.25, Num 3] / Num 2
   \<and> call (easeInOut (eases_of (fn2 Pow))) [Num 0.25, Num 3] = Num 0.0625
   \<and> Num 0.5 < Num 0.75
   \<and> call (easeInOut (eases_of (fn2 Pow))) [Num 0.75, Num 3]
       = (Num 2 - fn2 Pow [Num 2 * (Num 1 - Num 0.75), Num 3]) / Num 2
   \<and> call (easeInOut (eases_of (fn2 Pow))) [Num 0.75, Num 3] = Num 0.9375"
  using easeInOut_split [of "''Pow''" "eases_of (fn2 Pow)" "Num 0.25" "[Num 3]"]
    easeInOut_split [of "''Pow''" "eases_of (fn2 Pow)" "Num 0.75" "[Num 3]"]
  by (simp add: family_lookup fn2_def Pow_def power3_eq_cube)

text \<open>
  \<open>Fx.Transitions.Back(1)\<close> is \<open>(1.618 + 1) * 1 - 1.618\<close> in doubles: the sum rounds up
  and the raw curve is \<open>1 + 2^-52\<close> at 1, not 1. The left branch of \<open>easeInOut\<close> at
  \<open>p = 0.5\<close> is then \<open>1/2 + 2^-53\<close> and the right branch \<open>1/2 - 2^-53\<close>: the two values
  that claim C5 equates differ.
\<close>

theorem Back_split_counterexample:
  "invoke Fx_Transitions ''Back'' [Num 1] = Some (Num (1 + 1 / 2 ^ 52))
   \<and> easeInOut_left (fn2 Back) [Num 0.5] = Num (1 / 2 + 1 / 2 ^ 53)
   \<and> easeInOut_right (fn2 Back) [Num 0.5] = Num (1 / 2 - 1 / 2 ^ 53)
   \<and> easeInOut_left (fn2 Back) [Num 0.5] \<noteq> easeInOut_right (fn2 Back) [Num 0.5]"
proof -
  have h: "Num 2 * Num 0.5 = Num 1" "Num 1 - Num 0.5 = Num 0.5"
    by simp_all
  have l: "easeInOut_left (fn2 Back) [Num 0.5] = Num (4503599627370497 / 9007199254740992)"
    unfolding easeInOut_left_def Let_def arg_simps arg_numeral h
    by (simp add: fn2_def Back_1 Back_left del: num_arith)
  have r: "easeInOut_right (fn2 Back) [Num 0.5] = Num (4503599627370495 / 9007199254740992)"
    unfolding easeInOut_right_def Let_def arg_simps arg_numeral h
    by (simp add: fn2_def Back_1 Back_two_minus Back_right del: num_arith)
  have i: "invoke Fx_Transitions ''Back'' [Num 1] = Some (Num (4503599627370497 / 4503599627370496))"
    by (simp add: invoke_def family_lookup fn2_def Back_1 del: num_arith)
  show ?thesis
    unfolding l r i by simp
qed

text \<open>
  Claim C5, as the code has it in double arithmetic, each family called with the progress
  alone. \<open>easeInOut\<close> takes its left branch up to \<open>p = 0.5\<close> and its right branch above.
  At \<open>p = 0.5\<close> the left branch is \<open>easeIn(1) / 2\<close> and the right branch is
  \<open>(2 - easeIn(1)) / 2\<close>. For every registered family other than Back the raw curve is
  exactly 1 at 1 and both branches are exactly 0.5 there; for Back the branches are
  \<open>1/2 + 2^-53\<close> and \<open>1/2 - 2^-53\<close>. So the two branch values agree up to rounding
  (each within \<open>2^-53\<close> of 1/2) for every family, and exactly for all but Back.
\<close>

theorem easeInOut_split_continuity:
  assumes "Fx_Transitions N = Some (Family fam)"
  shows "call (easeInOut fam) [p]
           = (if p \<le> Num 0.5 then easeInOut_left (raw fam) [p]
              else easeInOut_right (raw fam) [p])
    \<and> easeInOut_left (raw fam) [Num 0.5] = call (easeIn fam) [Num 1] / Num 2
    \<and> easeInOut_right (raw fam) [Num 0.5] = (Num 2 - call (easeIn fam) [Num 1]) / Num 2
    \<and> (N \<noteq> ''Back'' \<longrightarrow>
          raw fam [Num 1] = Num 1
          \<and> easeInOut_left (raw fam) [Num 0.5] = Num 0.5
          \<and> easeInOut_right (raw fam) [Num 0.5] = Num 0.5)
    \<and> (N = ''Back'' \<longrightarrow>
          raw fam [Num 1] = Num (1 + 1 / 2 ^ 52)
          \<and> easeInOut_left (raw fam) [Num 0.5] = Num (1 / 2 + 1 / 2 ^ 53)
          \<and> easeInOut_right (raw fam) [Num 0.5] = Num (1 / 2 - 1 / 2 ^ 53))
    \<and> near (easeInOut_left (raw fam) [Num 0.5]) (1 / 2) (1 / 2 ^ 53)
    \<and> near (easeInOut_right (raw fam) [Num 0.5]) (1 / 2) (1 / 2 ^ 53)"
proof -
  have "fam = eases_of (raw fam)"
    using assms by (rule family_is_eases)
  then have io: "call (easeInOut fam) = easeInOut_fn (raw fam)"
    using eases_of_simps(4) [of "raw fam"] by simp
  have br: "call (easeInOut fam) [p]
      = (if p \<le> Num 0.5 then easeInOut_left (raw fam) [p] else easeInOut_right (raw fam) [p])"
    unfolding io easeInOut_fn_branches by simp
  have i: "call (easeIn fam) [Num 1] = raw fam [Num 1]"
    using assms by (rule easeIn_single)
  note lr = branches_at_half [OF assms]
  have other: "raw fam [Num 1] = Num 1 \<and> easeInOut_left (raw fam) [Num 0.5] = Num 0.5
      \<and> easeInOut_right (raw fam) [Num 0.5] = Num 0.5" if "N \<noteq> ''Back''"
  proof -
    have "raw fam [Num 1] = Num 1"
      using assms that by (rule raw_at_1)
    then show ?thesis
      unfolding lr by simp
  qed
  have bk: "raw fam [Num 1] = Num (1 + 1 / 2 ^ 52)
      \<and> easeInOut_left (raw fam) [Num 0.5] = Num (1 / 2 + 1 / 2 ^ 53)
      \<and> easeInOut_right (raw fam) [Num 0.5] = Num (1 / 2 - 1 / 2 ^ 53)" if "N = ''Back''"
  proof -
    have r: "raw fam [Num 1] = Num (4503599627370497 / 4503599627370496)"
      using assms that by (simp add: raw_Back_1)
    have "easeInOut_left (raw fam) [Num 0.5] = Num (4503599627370497 / 9007199254740992)"
      unfolding lr r by (rule Back_left)
    moreover have "easeInOut_right (raw fam) [Num 0.5]
        = Num (4503599627370495 / 9007199254740992)"
      unfolding lr r Back_two_minus by (rule Back_right)
    ultimately show ?thesis
      using r by simp
  qed
  have nl: "near (easeInOut_left (raw fam) [Num 0.5]) (1 / 2) (1 / 2 ^ 53)"
    and nr: "near (easeInOut_right (raw fam) [Num 0.5]) (1 / 2) (1 / 2 ^ 53)"
    using other bk by (cases "N = ''Back''"; simp)+
  from br lr [unfolded i [symmetric]] other bk nl nr show ?thesis
    by blast
qed

theorem easeInOut_split_continuity_witness:
  "Fx_Transitions ''Circ'' = Some (Family (eases_of (fn1 Circ)))
   \<and> fn1 Circ [Num 1] = Num 1
   \<and> easeInOut_left (fn1 Circ) [Num 0.5] = Num 0.5
   \<and> easeInOut_right (fn1 Circ) [Num 0.5] = Num 0.5
   \<and> call (easeInOut (eases_of (fn1 Circ))) [Num 0.5] = Num 0.5
   \<and> Fx_Transitions ''Back'' = Some (Family (eases_of (fn2 Back)))
   \<and> easeInOut_left (fn2 Back) [Num 0.5] = Num (1 / 2 + 1 / 2 ^ 53)
   \<and> easeInOut_right (fn2 Back) [Num 0.5] = Num (1 / 2 - 1 / 2 ^ 53)"
proof -
  have c: "Fx_Transitions ''Circ'' = Some (Family (eases_of (fn1 Circ)))"
    and b: "Fx_Transitions ''Back'' = Some (Family (eases_of (fn2 Back)))"
    by (simp_all add: family_lookup)
  note tc = easeInOut_split_continuity [OF c, of "Num 0.5"]
  note tb = easeInOut_split_continuity [OF b, of "Num 0.5"]
  have 1: "call (easeInOut (eases_of (fn1 Circ))) [Num 0.5]
      = easeInOut_left (fn1 Circ) [Num 0.5]"
    using tc [THEN conjunct1] by simp
  have 2: "fn1 Circ [Num 1] = Num 1 \<and> easeInOut_left (fn1 Circ) [Num 0.5] = Num 0.5
      \<and> easeInOut_right (fn1 Circ) [Num 0.5] = Num 0.5"
    using tc [THEN conjunct2, THEN conjunct2, THEN conjunct2, THEN conjunct1] by simp
  have 3: "fn2 Back [Num 1] = Num (1 + 1 / 2 ^ 52)
      \<and> easeInOut_left (fn2 Back) [Num 0.5] = Num (1 / 2 + 1 / 2 ^ 53)
      \<and> easeInOut_right (fn2 Back) [Num 0.5] = Num (1 / 2 - 1 / 2 ^ 53)"
    using tb [THEN conjunct2, THEN conjunct2, THEN conjunct2, THEN conjunct2, THEN conjunct1]
    by simp
  from c b 1 2 3 show ?thesis
    by simp
qed

section \<open>Binding parameters\<close>

text \<open>
  Claim C6. Let \<open>b1\<close> and \<open>b2\<close> be two bindings of one curve, the first to
  \<open>fixedParams\<close> and the second to \<open>otherParams\<close>, and let the store afterwards be any
  store that still holds every array they were made with, whatever was bound or called in
  between. Then \<open>b1(progress)\<close> returns what \<open>curve(progress, fixedParams...)\<close> returned
  before any binding, \<open>b2(progress)\<close> returns what \<open>curve(progress, otherParams...)\<close>
  returned, and the curve itself returns on every argument list what it returned before:
  neither binding changes the curve or the other binding. Binding and calling leave every
  array of the store as it was and only add new ones, and the calls do return. For a
  function of the script the value of \<open>b1(progress)\<close> is the one that
  \<open>SetTransitionValues\<close> of the registry gives.
\<close>

theorem SetTransitionValues_binds:
  assumes "in_store curve h"
    and "bind curve fixedParams h = (b1, h1)"
    and "bind curve otherParams h1 = (b2, h2)"
    and "prefix h2 h'"
  shows "result (call_closure b1 [progress] h')
           = result (call_closure curve (progress # fixedParams) h)
    \<and> result (call_closure b2 [progress] h')
           = result (call_closure curve (progress # otherParams) h)
    \<and> result (call_closure curve arguments h') = result (call_closure curve arguments h)
    \<and> prefix h h1 \<and> prefix h1 h2
    \<and> (\<exists>v h''. call_closure b1 [progress] h' = Some (v, h'') \<and> prefix h' h'')
    \<and> (\<exists>v h''. call_closure b2 [progress] h' = Some (v, h'') \<and> prefix h' h'')
    \<and> (\<forall>f. curve = Native f \<longrightarrow>
          result (call_closure b1 [progress] h')
            = Some (SetTransitionValues f fixedParams [progress]))"
proof -
  have b1: "b1 = Bound curve (length h)" and h1: "h1 = h @ [fixedParams]"
    using assms(2) by (simp_all add: bind_eq)
  have b2: "b2 = Bound curve (length h1)" and h2: "h2 = h1 @ [otherParams]"
    using assms(3) by (simp_all add: bind_eq)
  have p01: "prefix h h1" and p12: "prefix h1 h2"
    by (simp_all add: h1 h2)
  have p02: "prefix h h2"
    using p01 p12 by (rule prefix_order.trans)
  have p1': "prefix h1 h'"
    using p12 assms(4) by (rule prefix_order.trans)
  have p0': "prefix h h'"
    using p01 p1' by (rule prefix_order.trans)
  have c1: "in_store curve h1"
    using assms(1) p01 by (rule in_store_mono)
  have c2: "in_store curve h2"
    using assms(1) p02 by (rule in_store_mono)
  have s1: "in_store b1 h1"
    using c1 by (simp add: b1 h1)
  have s2: "in_store b2 h2"
    using c2 by (simp add: b2 h2)
  have s1': "in_store b1 h'"
    using s1 p1' by (rule in_store_mono)
  have s2': "in_store b2 h'"
    using s2 assms(4) by (rule in_store_mono)
  have r1: "result (call_closure b1 [progress] h')
      = result (call_closure curve (progress # fixedParams) h)"
  proof -
    have "result (call_closure b1 [progress] h') = result (call_closure b1 [progress] h1)"
      using s1 p1' by (rule result_stable)
    also have "\<dots> = result (call_closure curve ([progress] @ h1 ! length h) h1)"
      unfolding b1 by (rule result_Bound) (simp_all add: h1 c1 [unfolded h1])
    also have "\<dots> = result (call_closure curve (progress # fixedParams) h1)"
      by (simp add: h1)
    also have "\<dots> = result (call_closure curve (progress # fixedParams) h)"
      using assms(1) p01 by (rule result_stable)
    finally show ?thesis .
  qed
  have r2: "result (call_closure b2 [progress] h')
      = result (call_closure curve (progress # otherParams) h)"
  proof -
    have "result (call_closure b2 [progress] h') = result (call_closure b2 [progress] h2)"
      using s2 assms(4) by (rule result_stable)
    also have "\<dots> = result (call_closure curve ([progress] @ h2 ! length h1) h2)"
      unfolding b2 by (rule result_Bound) (simp_all add: h2 c2 [unfolded h2])
    also have "\<dots> = result (call_closure curve (progress # otherParams) h2)"
      by (simp add: h2)
    also have "\<dots> = result (call_closure curve (progress # otherParams) h)"
      using assms(1) p02 by (rule result_stable)
    finally show ?thesis .
  qed
  have r0: "result (call_closure curve arguments h') = result (call_closure curve arguments h)"
    using assms(1) p0' by (rule result_stable)
  have t1: "\<exists>v h''. call_closure b1 [progress] h' = Some (v, h'') \<and> prefix h' h''"
    using s1' by (rule call_closure_total)
  have t2: "\<exists>v h''. call_closure b2 [progress] h' = Some (v, h'') \<and> prefix h' h''"
    using s2' by (rule call_closure_total)
  have n: "\<forall>f. curve = Native f \<longrightarrow> result (call_closure b1 [progress] h')
      = Some (SetTransitionValues f fixedParams [progress])"
    using r1 by (simp add: result_def SetTransitionValues_def)
  from r1 r2 r0 p01 p12 t1 t2 n show ?thesis
    by (intro conjI)
qed

theorem SetTransitionValues_binds_witness:
  "in_store (Native (easeIn_fn (fn2 Pow))) []
   \<and> bind (Native (easeIn_fn (fn2 Pow))) [Num 2] []
        = (Bound (Native (easeIn_fn (fn2 Pow))) 0, [ [Num 2] ])
   \<and> bind (Native (easeIn_fn (fn2 Pow))) [Num 3] [ [Num 2] ]
        = (Bound (Native (easeIn_fn (fn2 Pow))) 1, [ [Num 2], [Num 3] ])
   \<and> prefix [ [Num 2], [Num 3] ] [ [Num 2], [Num 3] ]
   \<and> result (call_closure (Bound (Native (easeIn_fn (fn2 Pow))) 0) [Num 0.5] [ [Num 2], [Num 3] ])
        = Some (Num 0.25)
   \<and> result (call_closure (Bound (Native (easeIn_fn (fn2 Pow))) 1) [Num 0.5] [ [Num 2], [Num 3] ])
        = Some (Num 0.125)
   \<and> result (call_closure (Native (easeIn_fn (fn2 Pow))) [Num 0.5] [ [Num 2], [Num 3] ])
        = Some (Num 0.015625)"
proof -
  let ?c = "Native (easeIn_fn (fn2 Pow))"
  have v: "easeIn_fn (fn2 Pow) [Num (1 / 2), Num 2] = Num (1 / 4)"
    "easeIn_fn (fn2 Pow) [Num (1 / 2), Num 3] = Num (1 / 8)"
    "easeIn_fn (fn2 Pow) [Num (1 / 2)] = Num (1 / 64)"
    by (simp_all add: easeIn_fn_def fn2_def Pow_def power_divide)
  have b: "bind ?c [Num 2] [] = (Bound ?c 0, [ [Num 2] ])"
    "bind ?c [Num 3] [ [Num 2] ] = (Bound ?c 1, [ [Num 2], [Num 3] ])"
    by (simp_all add: bind_eq)
  have s: "in_store ?c []"
    by simp
  have p: "prefix [ [Num 2], [Num 3] ] [ [Num 2], [Num 3] ]"
    by simp
  from SetTransitionValues_binds [OF s b p, of "Num 0.5" "[Num 0.5]"] s b p show ?thesis
    by (simp add: result_def v del: num_arith)
qed

section \<open>The power family and linear\<close>

text \<open>
  Claim C7, the power-family identity: for every \<open>p\<close>, \<open>Quad(p)\<close> is \<open>Pow(p, 2)\<close>,
  \<open>Cubic(p)\<close> is \<open>Pow(p, 3)\<close>, \<open>Quart(p)\<close> is \<open>Pow(p, 4)\<close> and \<open>Quint(p)\<close> is
  \<open>Pow(p, 5)\<close>, read from the registry.
\<close>

theorem power_family_identity:
  "invoke Fx_Transitions ''Quad'' [p] = Some (Pow p (Num 2))
   \<and> invoke Fx_Transitions ''Cubic'' [p] = Some (Pow p (Num 3))
   \<and> invoke Fx_Transitions ''Quart'' [p] = Some (Pow p (Num 4))
   \<and> invoke Fx_Transitions ''Quint'' [p] = Some (Pow p (Num 5))
   \<and> invoke Fx_Transitions ''Quad'' [p] = invoke Fx_Transitions ''Pow'' [p, Num 2]
   \<and> invoke Fx_Transitions ''Cubic'' [p] = invoke Fx_Transitions ''Pow'' [p, Num 3]
   \<and> invoke Fx_Transitions ''Quart'' [p] = invoke Fx_Transitions ''Pow'' [p, Num 4]
   \<and> invoke Fx_Transitions ''Quint'' [p] = invoke Fx_Transitions ''Pow'' [p, Num 5]"
  by (simp add: invoke_def family_lookup PowN_def fn2_def)

theorem power_family_identity_witness:
  "invoke Fx_Transitions ''Quad'' [Num 3] = Some (Num 9)
   \<and> invoke Fx_Transitions ''Cubic'' [Num 3] = Some (Num 27)
   \<and> invoke Fx_Transitions ''Quart'' [Num 3] = Some (Num 81)
   \<and> invoke Fx_Transitions ''Quint'' [Num 3] = Some (Num 243)"
  using power_family_identity [of "Num 3"] by (simp add: Pow_def)

text \<open>
  \<open>Fx.Transitions.linear(0.25)\<close>: \<open>c\<close> and \<open>d\<close> are \<open>undefined\<close>, so
  \<open>c * (t / d)\<close> is \<open>NaN\<close> and not 0.25, against claim C8.
\<close>

theorem linear_single_argument_counterexample:
  "invoke Fx_Transitions ''linear'' [Num 0.25] = Some NaN
   \<and> invoke Fx_Transitions ''linear'' [Num 0.25] \<noteq> Some (Num 0.25)"
  by (simp add: invoke_def linear_lookup fn3_def linear_def)

text \<open>
  Claim C8, as the code has it: \<open>linear\<close> takes three arguments \<open>(t, c, d)\<close> and returns
  \<open>c * (t / d)\<close>; with \<open>c = d = 1\<close> it is the identity on its first argument, so
  \<open>linear(0.25, 1, 1)\<close> is 0.25. The identity holds for every JavaScript number \<open>p\<close>,
  finite or not: \<open>is_double\<close> leaves out only the reals that no double has as its value.
\<close>

theorem linear_three_arguments:
  "invoke Fx_Transitions ''linear'' [t, c, d] = Some (c * (t / d))
   \<and> (is_double p \<longrightarrow> invoke Fx_Transitions ''linear'' [p, Num 1, Num 1] = Some p)"
  by (simp add: invoke_def linear_lookup fn3_def linear_unit) (simp add: linear_def)

theorem linear_three_arguments_witness:
  "is_double (Num 0.25)
   \<and> invoke Fx_Transitions ''linear'' [Num 0.25, Num 1, Num 1] = Some (Num 0.25)
   \<and> invoke Fx_Transitions ''linear'' [Num 1, Num 2, Num 4] = Some (Num 0.5)"
  using linear_three_arguments [of "Num 1" "Num 2" "Num 4" "Num 0.25"] by simp

section \<open>Falsy parameters and the lowercase aliases\<close>

text \<open>
  Claim C9: a tunable parameter of 0 is falsy and is replaced by the default, as a
  parameter left out is. For every \<open>p\<close>: \<open>Pow(p, 0)\<close> is \<open>Pow(p, 6)\<close> and \<open>Pow(p)\<close>;
  \<open>Back(p, 0)\<close> is \<open>Back(p, 1.6180)\<close> and \<open>Back(p)\<close>; \<open>Elastic(p, 0, y)\<close> is
  \<open>Elastic(p, 1, y)\<close> and \<open>Elastic(p, undefined, y)\<close>.
\<close>

theorem falsy_parameter_default:
  "invoke Fx_Transitions ''Pow'' [p, Num 0] = invoke Fx_Transitions ''Pow'' [p, Num 6]
   \<and> invoke Fx_Transitions ''Pow'' [p, Num 0] = invoke Fx_Transitions ''Pow'' [p]
   \<and> invoke Fx_Transitions ''Back'' [p, Num 0]
       = invoke Fx_Transitions ''Back'' [p, lit 1.6180]
   \<and> invoke Fx_Transitions ''Back'' [p, Num 0] = invoke Fx_Transitions ''Back'' [p]
   \<and> invoke Fx_Transitions ''Elastic'' [p, Num 0, y]
       = invoke Fx_Transitions ''Elastic'' [p, Num 1, y]
   \<and> invoke Fx_Transitions ''Elastic'' [p, Num 0, y]
       = invoke Fx_Transitions ''Elastic'' [p, NaN, y]
   \<and> invoke Fx_Transitions ''Elastic'' [p, Num 0] = invoke Fx_Transitions ''Elastic'' [p]"
proof -
  have "or_else (lit 1.6180) (lit 1.6180) = lit 1.6180"
    by (simp add: or_else_def)
  then show ?thesis
    by (simp add: invoke_def family_lookup fn2_def fn3_def Pow_def Back_def Elastic_def)
qed

theorem falsy_parameter_default_witness:
  "invoke Fx_Transitions ''Pow'' [Num 2, Num 0] = Some (Num 64)
   \<and> invoke Fx_Transitions ''Pow'' [Num 2, Num 6] = Some (Num 64)
   \<and> invoke Fx_Transitions ''Pow'' [Num 2] = Some (Num 64)"
  using falsy_parameter_default [of "Num 2"]
  by (simp add: invoke_def family_lookup fn2_def Pow_def)

text \<open>
  Claim C10: for every family registered under a name \<open>N\<close>, the registry also holds
  \<open>N.toLowerCase()\<close> followed by \<open>In\<close>, \<open>Out\<close> and \<open>InOut\<close>, and these entries are
  the family's \<open>easeIn\<close>, \<open>easeOut\<close> and \<open>easeInOut\<close> themselves, so a call through
  either name returns the same result on every argument list.
\<close>

theorem compatibility_aliases:
  assumes "Fx_Transitions N = Some (Family fam)"
  shows "Fx_Transitions (toLowerCase N @ ''In'') = Some (Curve (easeIn fam))
    \<and> Fx_Transitions (toLowerCase N @ ''Out'') = Some (Curve (easeOut fam))
    \<and> Fx_Transitions (toLowerCase N @ ''InOut'') = Some (Curve (easeInOut fam))
    \<and> invoke Fx_Transitions (toLowerCase N @ ''In'') args
        = invoke_ease Fx_Transitions N easeIn args
    \<and> invoke Fx_Transitions (toLowerCase N @ ''Out'') args
        = invoke_ease Fx_Transitions N easeOut args
    \<and> invoke Fx_Transitions (toLowerCase N @ ''InOut'') args
        = invoke_ease Fx_Transitions N easeInOut args"
  using assms alias_lookup [OF assms]
  by (simp add: invoke_def invoke_ease_def)

theorem compatibility_aliases_witness:
  "Fx_Transitions ''Sine'' = Some (Family (eases_of (fn1 Sine)))
   \<and> toLowerCase ''Sine'' @ ''Out'' = ''sineOut''
   \<and> Fx_Transitions ''sineOut'' = Some (Curve (easeOut (eases_of (fn1 Sine))))
   \<and> invoke Fx_Transitions ''sineOut'' [Num 1]
       = invoke_ease Fx_Transitions ''Sine'' easeOut [Num 1]
   \<and> invoke Fx_Transitions ''sineOut'' [Num 1] = Some (Num 1)"
proof -
  have "easeOut_fn (fn1 Sine) [Num 1] = Num 1"
    unfolding easeOut_fn_def Let_def arg_simps fn1_def
    by (simp add: Sine_0)
  then show ?thesis
    using compatibility_aliases [of "''Sine''" "eases_of (fn1 Sine)" "[Num 1]"]
    by (simp add: family_lookup lower_names invoke_ease_def del: num_arith)
qed

end
